theory Spec2Isabelle
  imports Complex_Main
begin

section \<open>Numbers, errors and the random source\<close>

text \<open>
  The class \<^verbatim>\<open>AdvancedEEGSleepMonitor\<close> computes with JavaScript numbers. They are
  modelled as reals: every result below is about which branch is taken, which index is
  read and how many elements are stored, never about rounding. Strings are lists of
  characters with code units below 256. Sample counts and array indices are naturals.

  The only exception the modelled code can raise is the \<^verbatim>\<open>TypeError\<close> of reading a
  property of \<^verbatim>\<open>undefined\<close>.
\<close>

datatype error = TypeError

definition bindE :: "error + 'a \<Rightarrow> ('a \<Rightarrow> error + 'b) \<Rightarrow> error + 'b" where
  "bindE m f = (case m of Inl e \<Rightarrow> Inl e | Inr x \<Rightarrow> f x)"

text \<open>A loop over a list of indices whose body may throw: the first error stops it.\<close>

fun foldE :: "('i \<Rightarrow> 's \<Rightarrow> error + 's) \<Rightarrow> 'i list \<Rightarrow> 's \<Rightarrow> error + 's" where
  "foldE f [] s = Inr s"
| "foldE f (i # is) s = bindE (f i s) (foldE f is)"

text \<open>
  \<^verbatim>\<open>Math.random()\<close> is the ambient generator of the host. The model makes the sequence
  of numbers it will return an explicit argument; a call takes the first and leaves the
  rest.
\<close>

type_synonym rng = "nat \<Rightarrow> real"

definition random :: "rng \<Rightarrow> real \<times> rng" where
  "random g = (g 0, \<lambda>n. g (Suc n))"

text \<open>\<^verbatim>\<open>xs[i]\<close> is \<^verbatim>\<open>undefined\<close> past the end of the array.\<close>

definition elemAt :: "'a list \<Rightarrow> nat \<Rightarrow> 'a option" where
  "elemAt xs i = (if i < length xs then Some (xs ! i) else None)"

text \<open>
  \<^verbatim>\<open>a % b\<close> on numbers: the remainder of the division truncated towards zero. The
  divisor is never zero where the model uses it.
\<close>

definition js_rem :: "real \<Rightarrow> real \<Rightarrow> real" where
  "js_rem a b = a - b * of_int (if 0 \<le> a / b then \<lfloor>a / b\<rfloor> else \<lceil>a / b\<rceil>)"

section \<open>Stage timeline\<close>

text \<open>
  \<^verbatim>\<open>cyclePattern[stageIndex] || 'N2'\<close>: an index outside the array reads
  \<^verbatim>\<open>undefined\<close>, and so does the empty string count as false; both give the fallback.
\<close>

definition stageOr :: "string list \<Rightarrow> int \<Rightarrow> string" where
  "stageOr pat k =
     (if 0 \<le> k \<and> nat k < length pat \<and> pat ! nat k \<noteq> [] then pat ! nat k else ''N2'')"

text \<open>
  The body of the loop of \<^verbatim>\<open>generateSleepStageTimeline\<close>, with the pattern and the
  number of cycles (6 labels and 4 in the source) as arguments. With no cycles the cycle
  length \<^verbatim>\<open>samples / 0\<close> is \<^verbatim>\<open>Infinity\<close>, \<^verbatim>\<open>i % Infinity\<close> is \<^verbatim>\<open>i\<close> and the position
  \<^verbatim>\<open>i / Infinity\<close> is 0.
\<close>

definition stageAt :: "string list \<Rightarrow> nat \<Rightarrow> nat \<Rightarrow> nat \<Rightarrow> string" where
  "stageAt cyclePattern cycles n i =
     (let cycleLength = real n / real cycles;
          cyclePosition = (if cycles = 0 then 0 else js_rem (real i) cycleLength / cycleLength);
          stageIndex = \<lfloor>cyclePosition * real (length cyclePattern)\<rfloor>
      in stageOr cyclePattern stageIndex)"

definition stageTimeline :: "string list \<Rightarrow> nat \<Rightarrow> nat \<Rightarrow> string list" where
  "stageTimeline cyclePattern cycles n = map (stageAt cyclePattern cycles n) [0..<n]"

definition cyclePattern :: "string list" where
  "cyclePattern = [''Wake'', ''N1'', ''N2'', ''N3'', ''N2'', ''REM'']"

text \<open>The labels that \<^verbatim>\<open>generateStageSpecificSignal\<close> has a case for.\<close>

definition stageLabels :: "string set" where
  "stageLabels = {''Wake'', ''N1'', ''N2'', ''N3'', ''REM''}"

text \<open>
  The stage that \<^verbatim>\<open>generateRealisticChannelData\<close> synthesises sample \<open>i\<close> of \<open>n\<close> in:
  one pass through eight labels.
\<close>

definition channelPattern :: "string list" where
  "channelPattern = [''Wake'', ''N1'', ''N2'', ''N3'', ''N2'', ''REM'', ''N2'', ''N3'']"

definition channelStage :: "nat \<Rightarrow> nat \<Rightarrow> string" where
  "channelStage n i = stageOr channelPattern \<lfloor>real i / (real n / 8)\<rfloor>"

section \<open>Waveform synthesis\<close>

text \<open>
  \<^verbatim>\<open>generateStageSpecificSignal(t, stage, regionType)\<close> is two \<^verbatim>\<open>switch\<close> statements
  in a row, neither with a \<^verbatim>\<open>default\<close>: a label without a case leaves the signal as it
  is. The first, on the stage, adds the sinusoids of the stage to the signal 0; only its
  \<^verbatim>\<open>N2\<close> case draws a random number.
\<close>

definition stageSignal :: "real \<Rightarrow> string \<Rightarrow> rng \<Rightarrow> real \<times> rng" where
  "stageSignal t stage g =
     (if stage = ''Wake'' then
        (sin (2 * pi * 10 * t) * 15 + sin (2 * pi * 20 * t) * 20, g)
      else if stage = ''N1'' then
        (sin (2 * pi * 6 * t) * 25 + sin (2 * pi * 9 * t) * 10, g)
      else if stage = ''N2'' then
        (let s = sin (2 * pi * 2 * t) * 30 + sin (2 * pi * 12 * t) * 15;
             (r, g') = random g
         in if r < 0.001 then (s + sin (2 * pi * 1 * t) * 80, g') else (s, g'))
      else if stage = ''N3'' then
        (sin (2 * pi * 1 * t) * 50 + sin (2 * pi * 2 * t) * 30, g)
      else if stage = ''REM'' then
        (sin (2 * pi * 15 * t) * 12 + sin (2 * pi * 25 * t) * 8 + sin (2 * pi * 6 * t) * 10, g)
      else (0, g))"

text \<open>The second, on the region, scales the signal.\<close>

definition regionModulation :: "string \<Rightarrow> string \<Rightarrow> real \<Rightarrow> real" where
  "regionModulation regionType stage signal =
     (if regionType = ''frontal'' then signal * 1.2
      else if regionType = ''occipital'' then (if stage = ''Wake'' then signal * 1.5 else signal)
      else signal)"

definition generateStageSpecificSignal :: "real \<Rightarrow> string \<Rightarrow> string \<Rightarrow> rng \<Rightarrow> real \<times> rng" where
  "generateStageSpecificSignal t stage regionType g =
     (let (signal, g1) = stageSignal t stage g
      in (regionModulation regionType stage signal, g1))"

definition brainRegions :: "(string \<times> string list) list" where
  "brainRegions =
     [(''frontal'', [''Fp1'', ''Fp2'', ''F3'', ''F4'', ''F7'', ''F8'']),
      (''temporal'', [''T3'', ''T4'', ''T5'', ''T6'']),
      (''parietal'', [''P3'', ''P4'', ''Pz'']),
      (''occipital'', [''O1'', ''O2''])]"

fun regionOf :: "(string \<times> string list) list \<Rightarrow> string \<Rightarrow> string" where
  "regionOf [] channel = ''central''"
| "regionOf ((region, chs) # rest) channel =
     (if channel \<in> set chs then region else regionOf rest channel)"

definition getChannelRegion :: "string \<Rightarrow> string" where
  "getChannelRegion channel = regionOf brainRegions channel"

definition multipliers :: "(string \<times> real) list" where
  "multipliers =
     [(''Fp1'', 0.8), (''Fp2'', 0.8),
      (''F3'', 1.0), (''F4'', 1.0), (''F7'', 0.9), (''F8'', 0.9),
      (''C3'', 1.2), (''C4'', 1.2),
      (''P3'', 1.1), (''P4'', 1.1),
      (''O1'', 1.3), (''O2'', 1.3),
      (''T3'', 0.9), (''T4'', 0.9)]"

definition getChannelAmplitudeMultiplier :: "string \<Rightarrow> real" where
  "getChannelAmplitudeMultiplier channel =
     (case map_of multipliers channel of None \<Rightarrow> 1.0 | Some m \<Rightarrow> if m = 0 then 1.0 else m)"

text \<open>
  One iteration of the loop of \<^verbatim>\<open>generateRealisticChannelData\<close>: the value stored at
  index \<open>i\<close>.
\<close>

definition channelSample :: "nat \<Rightarrow> string \<Rightarrow> nat \<Rightarrow> rng \<Rightarrow> real \<times> rng" where
  "channelSample n channel i g =
     (let regionType = getChannelRegion channel;
          t = real i / 10;
          sleepStage = channelStage n i;
          (signal, g1) = generateStageSpecificSignal t sleepStage regionType g;
          (r, g2) = random g1;
          signal1 = signal + (r - 0.5) * 5;
          signal2 = signal1 * getChannelAmplitudeMultiplier channel
      in (signal2, g2))"

fun channelLoop :: "nat \<Rightarrow> string \<Rightarrow> nat list \<Rightarrow> rng \<Rightarrow> real list \<times> rng" where
  "channelLoop n channel [] g = ([], g)"
| "channelLoop n channel (i # is) g =
     (let (v, g1) = channelSample n channel i g;
          (vs, g2) = channelLoop n channel is g1
      in (v # vs, g2))"

definition generateRealisticChannelData :: "nat \<Rightarrow> string \<Rightarrow> rng \<Rightarrow> real list \<times> rng" where
  "generateRealisticChannelData n channel g = channelLoop n channel [0..<n] g"

section \<open>Datasets and events\<close>

text \<open>
  The objects pushed onto an event list. A field that an event type does not have is
  \<open>None\<close>; so is a time read past the end of the time array.
\<close>

datatype eventType = sleep_spindle | k_complex | rem_burst

record event =
  ev_time :: "real option"
  ev_type :: eventType
  description :: string
  confidence :: "real option"
  frequency :: "real option"
  amplitude :: "real option"
  duration :: "real option"

text \<open>
  \<^verbatim>\<open>this.data\<close>. The generator builds \<^verbatim>\<open>{time, channels, sleepStages, events}\<close>, the CSV
  parser \<^verbatim>\<open>{time, channels, samples}\<close>; a property an object lacks is \<open>None\<close>.
\<close>

record dataset =
  time :: "real list"
  channels :: "string \<rightharpoonup> real list"
  sleepStages :: "string list option"
  events :: "event list option"
  samples :: "nat option"

text \<open>
  The values of \<open>i\<close> in \<^verbatim>\<open>for (let i = a; i < b; i += step)\<close>, for a positive step.
\<close>

function stepIndices :: "nat \<Rightarrow> nat \<Rightarrow> nat \<Rightarrow> nat list" where
  "stepIndices step i b = (if 0 < step \<and> i < b then i # stepIndices step (i + step) b else [])"
  by pat_completeness auto
termination
  by (relation "measure (\<lambda>(step, i, b). b - i)") auto

declare stepIndices.simps [simp del]

definition generateSleepStageTimeline :: "nat \<Rightarrow> dataset \<Rightarrow> error + dataset" where
  "generateSleepStageTimeline n d =
     foldE (\<lambda>i d. case sleepStages d of
                     None \<Rightarrow> Inl TypeError
                   | Some ss \<Rightarrow> Inr (d\<lparr>sleepStages := Some (ss @ [stageAt cyclePattern 4 n i])\<rparr>))
           [0..<n] d"

definition pushEvent :: "event \<Rightarrow> dataset \<Rightarrow> error + dataset" where
  "pushEvent e d =
     (case events d of None \<Rightarrow> Inl TypeError | Some es \<Rightarrow> Inr (d\<lparr>events := Some (es @ [e])\<rparr>))"

text \<open>One iteration of the loop of \<^verbatim>\<open>generateSleepEvents\<close>.\<close>

definition sleepEventsAt :: "nat \<Rightarrow> dataset \<times> rng \<Rightarrow> error + dataset \<times> rng" where
  "sleepEventsAt i s =
     (case s of (d, g) \<Rightarrow>
        (case sleepStages d of
           None \<Rightarrow> Inl TypeError
         | Some ss \<Rightarrow>
             (let stage = elemAt ss i; tm = elemAt (time d) i in
              bindE
                (if stage = Some ''N2'' then
                   (let (r, g1) = random g in
                    if r < 0.1 then
                      (let (f, g2) = random g1; (du, g3) = random g2 in
                       bindE
                         (pushEvent \<lparr>ev_time = tm, ev_type = sleep_spindle,
                            description = ''Sleep spindle burst'', confidence = None,
                            frequency = Some (12 + f * 4), amplitude = None,
                            duration = Some (0.5 + du * 1.5)\<rparr> d)
                         (\<lambda>d'. Inr (d', g3)))
                    else Inr (d, g1))
                 else Inr (d, g))
                (\<lambda>(d1, h).
                   bindE
                     (if stage = Some ''N2'' then
                        (let (r, h1) = random h in
                         if r < 0.05 then
                           (let (a, h2) = random h1 in
                            bindE
                              (pushEvent \<lparr>ev_time = tm, ev_type = k_complex,
                                 description = ''K-complex detected'', confidence = None,
                                 frequency = None, amplitude = Some (50 + a * 30),
                                 duration = None\<rparr> d1)
                              (\<lambda>d'. Inr (d', h2)))
                         else Inr (d1, h1))
                      else Inr (d1, h))
                     (\<lambda>(d2, k).
                        if stage = Some ''REM'' then
                          (let (r, k1) = random k in
                           if r < 0.15 then
                             (let (du, k2) = random k1 in
                              bindE
                                (pushEvent \<lparr>ev_time = tm, ev_type = rem_burst,
                                   description = ''REM burst episode'', confidence = None,
                                   frequency = None, amplitude = None,
                                   duration = Some (2 + du * 5)\<rparr> d2)
                                (\<lambda>d'. Inr (d', k2)))
                           else Inr (d2, k1))
                        else Inr (d2, k))))))"

definition generateSleepEvents :: "nat \<Rightarrow> dataset \<times> rng \<Rightarrow> error + dataset \<times> rng" where
  "generateSleepEvents n s =
     (case s of (d, g) \<Rightarrow> foldE sleepEventsAt (stepIndices 100 0 n) (d\<lparr>events := Some []\<rparr>, g))"

definition channelNames :: "string list" where
  "channelNames = [''Fp1'', ''Fp2'', ''F3'', ''F4'', ''F7'', ''F8'', ''T3'', ''T4'',
                   ''C3'', ''C4'', ''P3'', ''P4'', ''O1'', ''O2'']"

definition timeArray :: "nat \<Rightarrow> real list" where
  "timeArray n = map (\<lambda>i. real i / 10) [0..<n]"

text \<open>
  \<^verbatim>\<open>generateAdvancedEEGData\<close>, as far as \<^verbatim>\<open>this.data\<close> goes (the slider and the log
  are left out): one hour at 10 samples per second.
\<close>

definition generateAdvancedEEGData :: "rng \<Rightarrow> error + dataset \<times> rng" where
  "generateAdvancedEEGData g =
     (let duration = 3600;
          n = duration * 10;
          d0 = \<lparr>time = [], channels = Map.empty, sleepStages = Some [], events = Some [],
                samples = None\<rparr>;
          d1 = d0\<lparr>time := time d0 @ timeArray n\<rparr>;
          (d2, g2) = fold (\<lambda>channel (d, g).
                             let (xs, g') = generateRealisticChannelData n channel g
                             in (d\<lparr>channels := (channels d)(channel \<mapsto> xs)\<rparr>, g'))
                          channelNames (d1, g)
      in bindE (generateSleepStageTimeline n d2) (\<lambda>d3. generateSleepEvents n (d3, g2)))"

section \<open>CSV ingestion\<close>

text \<open>
  \<^verbatim>\<open>String.prototype.trim\<close> removes white space and line terminators from both ends;
  these are the ones with a code unit below 256.
\<close>

definition isWhiteSpace :: "char \<Rightarrow> bool" where
  "isWhiteSpace c \<longleftrightarrow>
     c \<in> set [CHR 0x09, CHR 0x0A, CHR 0x0B, CHR 0x0C, CHR 0x0D, CHR 0x20, CHR 0xA0]"

definition js_trim :: "string \<Rightarrow> string" where
  "js_trim s = rev (dropWhile isWhiteSpace (rev (dropWhile isWhiteSpace s)))"

text \<open>\<^verbatim>\<open>s.split(sep)\<close> for a separator of one character: never an empty array.\<close>

fun js_split :: "char \<Rightarrow> string \<Rightarrow> string list" where
  "js_split sep [] = [[]]"
| "js_split sep (c # cs) =
     (if c = sep then [] # js_split sep cs
      else (case js_split sep cs of [] \<Rightarrow> [[c]] | w # ws \<Rightarrow> (c # w) # ws))"

text \<open>
  \<^verbatim>\<open>parseFloat\<close> is the host's; the parser takes it as the argument \<open>pf\<close>, \<open>None\<close>
  standing for \<^verbatim>\<open>NaN\<close>. \<^verbatim>\<open>parseFloat(values[j]) || 0\<close> turns \<^verbatim>\<open>NaN\<close> into 0.
\<close>

definition pushCell ::
  "(string \<Rightarrow> real option) \<Rightarrow> string list \<Rightarrow> string list \<Rightarrow> nat \<Rightarrow> dataset \<Rightarrow> error + dataset" where
  "pushCell pf headers values j d =
     (let channelName = js_trim (headers ! j);
          value = (case pf (values ! j) of None \<Rightarrow> 0 | Some v \<Rightarrow> v)
      in case channels d channelName of
           None \<Rightarrow> Inl TypeError
         | Some xs \<Rightarrow> Inr (d\<lparr>channels := (channels d)(channelName \<mapsto> xs @ [value])\<rparr>))"

text \<open>One iteration of the loop over the data rows: line \<open>i\<close> of the file.\<close>

definition parseRow ::
  "(string \<Rightarrow> real option) \<Rightarrow> string list \<Rightarrow> string list \<Rightarrow> nat \<Rightarrow> dataset \<Rightarrow> error + dataset" where
  "parseRow pf headers lines i d =
     (let values = js_split CHR '','' (lines ! i) in
      if 2 \<le> length values then
        (let timeValue = real i * 0.004;
             d1 = d\<lparr>time := time d @ [timeValue]\<rparr>
         in foldE (pushCell pf headers values) [1..<min (length values) (length headers)] d1)
      else Inr d)"

definition parseCSVData :: "(string \<Rightarrow> real option) \<Rightarrow> string \<Rightarrow> error + dataset" where
  "parseCSVData pf csvText =
     (let lines = js_split CHR 0x0A (js_trim csvText) in
      case lines of
        [] \<Rightarrow> Inl TypeError
      | l0 # _ \<Rightarrow>
          (let headers = js_split CHR '','' l0;
               dat = \<lparr>time = [], channels = Map.empty, sleepStages = None, events = None,
                       samples = Some 0\<rparr>;
               dat1 = fold (\<lambda>i d. d\<lparr>channels := (channels d)(js_trim (headers ! i) \<mapsto> [])\<rparr>)
                           [1..<length headers] dat
           in bindE (foldE (parseRow pf headers lines) [1..<min (length lines) 5000] dat1)
                (\<lambda>dat2. Inr (dat2\<lparr>samples := Some (length (time dat2))\<rparr>))))"

text \<open>
  A cell parser for the examples: the value of a string of decimal digits, \<^verbatim>\<open>NaN\<close> for
  any other string. \<^verbatim>\<open>parseFloat\<close> agrees with it on strings of digits and on strings
  of letters.
\<close>

definition digitValue :: "char \<Rightarrow> nat" where
  "digitValue c = of_char c - 48"

definition parseDigits :: "string \<Rightarrow> real option" where
  "parseDigits s =
     (if s \<noteq> [] \<and> list_all (\<lambda>c. c \<in> set ''0123456789'') s
      then Some (real (foldl (\<lambda>a c. 10 * a + digitValue c) 0 s)) else None)"

section \<open>Event detection\<close>

definition windowSize :: nat where
  "windowSize = 50"

definition calculateVariance :: "real list \<Rightarrow> real" where
  "calculateVariance xs =
     (let mean = foldl (\<lambda>a b. a + b) 0 xs / real (length xs)
      in foldl (\<lambda>a b. a + (b - mean)\<^sup>2) 0 xs / real (length xs))"

text \<open>
  The three detectors draw their random number last, and only when the tests on the
  window before it hold (\<^verbatim>\<open>&&\<close> evaluates its right side only then). On an empty
  window the quotients of the source are \<^verbatim>\<open>NaN\<close> and its comparisons false; the quotients
  of the model are 0 there and the comparisons false as well.
\<close>

definition detectSpindle :: "real list \<Rightarrow> rng \<Rightarrow> bool \<times> rng" where
  "detectSpindle window g =
     (let variance = calculateVariance window;
          meanAmplitude = foldl (\<lambda>a b. a + \<bar>b\<bar>) 0 window / real (length window)
      in if variance > 15 \<and> meanAmplitude > 8
         then (let (r, g') = random g in (r > 0.7, g')) else (False, g))"

text \<open>
  \<^verbatim>\<open>Math.min()\<close> of no arguments is \<^verbatim>\<open>Infinity\<close> and \<^verbatim>\<open>Math.max()\<close> is \<^verbatim>\<open>-Infinity\<close>:
  on an empty window the amplitude is \<^verbatim>\<open>-Infinity\<close> and the test fails.
\<close>

definition detectKComplex :: "real list \<Rightarrow> rng \<Rightarrow> bool \<times> rng" where
  "detectKComplex window g =
     (case window of
        [] \<Rightarrow> (False, g)
      | x # xs \<Rightarrow>
          (let minValue = fold min xs x;
               maxValue = fold max xs x;
               amplitude = maxValue - minValue
           in if amplitude > 50 \<and> minValue < - 25
              then (let (r, g') = random g in (r > 0.8, g')) else (False, g)))"

text \<open>
  The filter keeps the elements other than the first that differ from their predecessor
  by more than 5: the pairs of neighbours that do.
\<close>

definition detectREMBurst :: "real list \<Rightarrow> rng \<Rightarrow> bool \<times> rng" where
  "detectREMBurst window g =
     (let highFreqActivity = length (filter (\<lambda>(prev, val). \<bar>val - prev\<bar> > 5) (zip window (tl window)))
      in if real highFreqActivity > real (length window) * 0.3
         then (let (r, g') = random g in (r > 0.6, g')) else (False, g))"

text \<open>
  \<^verbatim>\<open>Math.max(...window.map(Math.abs))\<close>; \<open>None\<close> on the empty window, where the source
  has \<^verbatim>\<open>-Infinity\<close> (not reached: \<open>detectKComplex\<close> is false there).
\<close>

definition maxAbs :: "real list \<Rightarrow> real option" where
  "maxAbs window = (case map abs window of [] \<Rightarrow> None | x # xs \<Rightarrow> Some (fold max xs x))"

text \<open>
  The body of the loop of \<^verbatim>\<open>runSleepEventDetection\<close> for the window that starts at
  \<open>i\<close>; the state is the array \<^verbatim>\<open>events\<close> and the random source.
\<close>

definition detectWindow ::
  "dataset \<Rightarrow> real list \<Rightarrow> nat \<Rightarrow> event list \<times> rng \<Rightarrow> error + event list \<times> rng" where
  "detectWindow d channelData i s =
     (case s of (evs, g) \<Rightarrow>
        (let window = take windowSize (drop i channelData);
             tm = elemAt (time d) i
         in case sleepStages d of
              None \<Rightarrow> Inl TypeError
            | Some ss \<Rightarrow>
                (let stage = elemAt ss i;
                     (evs1, g1) =
                       (if stage = Some ''N2'' then
                          (let (b, h) = detectSpindle window g in
                           if b then
                             (let (c, h1) = random h; (f, h2) = random h1; (du, h3) = random h2
                              in (evs @ [\<lparr>ev_time = tm, ev_type = sleep_spindle,
                                          description = ''Sleep spindle detected'',
                                          confidence = Some (0.85 + c * 0.1),
                                          frequency = Some (12 + f * 4), amplitude = None,
                                          duration = Some (0.5 + du * 1.5)\<rparr>], h3))
                           else (evs, h))
                        else (evs, g));
                     (evs2, g2) =
                       (if stage = Some ''N2'' then
                          (let (b, h) = detectKComplex window g1 in
                           if b then
                             (let (c, h1) = random h
                              in (evs1 @ [\<lparr>ev_time = tm, ev_type = k_complex,
                                           description = ''K-complex detected'',
                                           confidence = Some (0.80 + c * 0.15),
                                           frequency = None, amplitude = maxAbs window,
                                           duration = None\<rparr>], h1))
                           else (evs1, h))
                        else (evs1, g1));
                     (evs3, g3) =
                       (if stage = Some ''REM'' then
                          (let (b, h) = detectREMBurst window g2 in
                           if b then
                             (let (c, h1) = random h; (du, h2) = random h1
                              in (evs2 @ [\<lparr>ev_time = tm, ev_type = rem_burst,
                                           description = ''REM burst episode'',
                                           confidence = Some (0.75 + c * 0.2),
                                           frequency = None, amplitude = None,
                                           duration = Some (2 + du * 5)\<rparr>], h2))
                           else (evs2, h))
                        else (evs2, g2))
                 in Inr (evs3, g3))))"

text \<open>
  \<^verbatim>\<open>runSleepEventDetection\<close> reads \<^verbatim>\<open>this.data\<close> (\<open>None\<close> for \<^verbatim>\<open>null\<close>) and always
  the channel \<^verbatim>\<open>C3\<close>.
\<close>

definition runSleepEventDetection :: "dataset option \<Rightarrow> rng \<Rightarrow> error + event list \<times> rng" where
  "runSleepEventDetection dat g =
     (case dat of
        None \<Rightarrow> Inr ([], g)
      | Some d \<Rightarrow>
          (case channels d ''C3'' of
             None \<Rightarrow> Inr ([], g)
           | Some channelData \<Rightarrow>
               foldE (detectWindow d channelData)
                 (stepIndices windowSize 0 (length channelData - windowSize)) ([], g)))"

section \<open>Vocabulary of the properties and sample data\<close>

text \<open>The stage label that \<^verbatim>\<open>this.data.sleepStages[i]\<close> reads, if any.\<close>

definition stageOfSample :: "dataset \<Rightarrow> nat \<Rightarrow> string option" where
  "stageOfSample d i = (case sleepStages d of None \<Rightarrow> None | Some ss \<Rightarrow> elemAt ss i)"

text \<open>
  A series that swings between 30 and -30, a dataset of \<open>2 * n\<close> samples built on it at
  10 samples per second with every sample in one stage, and a random source that always
  returns 0.9, so that every random gate of the detector is open.
\<close>

definition exampleSeries :: "nat \<Rightarrow> real list" where
  "exampleSeries n = concat (replicate n [30, - 30])"

definition exampleData :: "nat \<Rightarrow> string \<Rightarrow> dataset" where
  "exampleData n stage =
     \<lparr>time = timeArray (2 * n), channels = [''C3'' \<mapsto> exampleSeries n],
      sleepStages = Some (replicate (2 * n) stage), events = Some [], samples = None\<rparr>"

definition exampleRng :: rng where
  "exampleRng = (\<lambda>n. 9 / 10)"

text \<open>The events that the detector builds from the first window of that series.\<close>

definition spindleExample :: event where
  "spindleExample =
     \<lparr>ev_time = Some 0, ev_type = sleep_spindle, description = ''Sleep spindle detected'',
      confidence = Some (94 / 100), frequency = Some (156 / 10), amplitude = None,
      duration = Some (185 / 100)\<rparr>"

definition kComplexExample :: event where
  "kComplexExample =
     \<lparr>ev_time = Some 0, ev_type = k_complex, description = ''K-complex detected'',
      confidence = Some (935 / 1000), frequency = None, amplitude = Some 30,
      duration = None\<rparr>"

definition remExample :: event where
  "remExample =
     \<lparr>ev_time = Some 0, ev_type = rem_burst, description = ''REM burst episode'',
      confidence = Some (93 / 100), frequency = None, amplitude = None,
      duration = Some (65 / 10)\<rparr>"

text \<open>
  A dataset without the channel \<^verbatim>\<open>C3\<close>, and the dataset that the CSV parser returns
  for the header \<^verbatim>\<open>t,C3\<close> alone.
\<close>

definition noC3Data :: dataset where
  "noC3Data =
     \<lparr>time = [0, 1 / 10], channels = [''Fp1'' \<mapsto> [1, 2]],
      sleepStages = Some [''N2'', ''N2''], events = Some [], samples = None\<rparr>"

definition emptyC3Data :: dataset where
  "emptyC3Data =
     \<lparr>time = [], channels = [''C3'' \<mapsto> []], sleepStages = None, events = None,
      samples = Some 0\<rparr>"

text \<open>
  The indices of the data rows that the parser keeps: the lines after the header, up to
  line 4999, that have at least two fields.
\<close>

definition keptRows :: "string list \<Rightarrow> nat list" where
  "keptRows lines =
     filter (\<lambda>i. 2 \<le> length (js_split CHR '','' (lines ! i))) [1..<min (length lines) 5000]"

text \<open>
  CSV texts: a row with fewer fields than the header, a row of one field between two
  full rows, and two full rows.
\<close>

definition csvShortRow :: string where
  "csvShortRow = ''t,A,B'' @ [CHR 0x0A] @ ''1,2''"

definition csvGap :: string where
  "csvGap = ''t,A'' @ [CHR 0x0A] @ ''1,2'' @ [CHR 0x0A] @ ''x'' @ [CHR 0x0A] @ ''3,4''"

definition csvTwoRows :: string where
  "csvTwoRows = ''t,A'' @ [CHR 0x0A] @ ''1,2'' @ [CHR 0x0A] @ ''3,4''"

text \<open>The datasets that the parser returns for these three texts.\<close>

definition shortRowData :: dataset where
  "shortRowData =
     \<lparr>time = [4 / 1000], channels = [''A'' \<mapsto> [2], ''B'' \<mapsto> []], sleepStages = None,
      events = None, samples = Some 1\<rparr>"

definition gapData :: dataset where
  "gapData =
     \<lparr>time = [4 / 1000, 12 / 1000], channels = [''A'' \<mapsto> [2, 4]], sleepStages = None,
      events = None, samples = Some 2\<rparr>"

definition twoRowsData :: dataset where
  "twoRowsData =
     \<lparr>time = [4 / 1000, 8 / 1000], channels = [''A'' \<mapsto> [2, 4]], sleepStages = None,
      events = None, samples = Some 2\<rparr>"

text \<open>
  What line \<open>i\<close> of the file gives the time sequence and the series of the channel
  named \<open>c\<close>, read off the loop body of the parser: nothing when the line has fewer than
  two fields; otherwise its time and, for every column \<open>j\<close> from 1 on that both the line
  and the header have and whose header names \<open>c\<close>, the parsed cell.
\<close>

definition rowTime :: "string list \<Rightarrow> nat \<Rightarrow> real list" where
  "rowTime lines i =
     (if 2 \<le> length (js_split CHR '','' (lines ! i)) then [real i * 0.004] else [])"

definition rowCells ::
  "(string \<Rightarrow> real option) \<Rightarrow> string list \<Rightarrow> string list \<Rightarrow> string \<Rightarrow> nat \<Rightarrow> real list" where
  "rowCells pf headers lines c i =
     (let values = js_split CHR '','' (lines ! i) in
      if 2 \<le> length values then
        map (\<lambda>j. case pf (values ! j) of None \<Rightarrow> 0 | Some v \<Rightarrow> v)
          (filter (\<lambda>j. js_trim (headers ! j) = c) [1..<min (length values) (length headers)])
      else [])"


text \<open>
  The dataset before and after the parser's loop body has run on the row \<^verbatim>\<open>1,2\<close> under
  the header \<^verbatim>\<open>t,A,B\<close>.
\<close>

definition rowBefore :: dataset where
  "rowBefore = \<lparr>time = [], channels = [''A'' \<mapsto> [], ''B'' \<mapsto> []], sleepStages = None,
                 events = None, samples = Some 0\<rparr>"

definition rowAfter :: dataset where
  "rowAfter = \<lparr>time = [4 / 1000], channels = [''A'' \<mapsto> [2], ''B'' \<mapsto> []], sleepStages = None,
                events = None, samples = Some 0\<rparr>"

section \<open>Properties of the stage timeline\<close>

lemma js_rem_bounds: "0 \<le> a \<Longrightarrow> 0 < b \<Longrightarrow> 0 \<le> js_rem a b \<and> js_rem a b < b"
proof -
  assume a: "0 \<le> a" and b: "0 < b"
  have q: "0 \<le> a / b" using a b by simp
  have "of_int \<lfloor>a / b\<rfloor> * b \<le> a" using b by (rule floor_divide_lower)
  moreover have "a < (of_int \<lfloor>a / b\<rfloor> + 1) * b" using b by (rule floor_divide_upper)
  ultimately show ?thesis using q by (simp add: js_rem_def algebra_simps)
qed

lemma stageOr_mem: "stageOr pat k \<in> insert ''N2'' (set pat)"
  by (simp add: stageOr_def)

lemma stageOr_in_range: "0 \<le> k \<Longrightarrow> nat k < length pat \<Longrightarrow> [] \<notin> set pat \<Longrightarrow> stageOr pat k = pat ! nat k"
proof -
  assume k: "0 \<le> k" "nat k < length pat" and ne: "[] \<notin> set pat"
  from k(2) have "pat ! nat k \<in> set pat" by (rule nth_mem)
  with ne have "pat ! nat k \<noteq> []" by metis
  with k show ?thesis by (simp add: stageOr_def)
qed

lemma cyclePosition_bounds:
  assumes "0 < n" "0 < cycles"
  shows "0 \<le> js_rem (real i) (real n / real cycles) / (real n / real cycles)"
    and "js_rem (real i) (real n / real cycles) / (real n / real cycles) < 1"
proof -
  have b: "0 < real n / real cycles" using assms by simp
  from js_rem_bounds[OF _ b, of "real i"]
  have r: "0 \<le> js_rem (real i) (real n / real cycles)" "js_rem (real i) (real n / real cycles) < real n / real cycles"
    by simp_all
  from r(1) b show "0 \<le> js_rem (real i) (real n / real cycles) / (real n / real cycles)"
    by (rule divide_nonneg_pos)
  from r(2) b show "js_rem (real i) (real n / real cycles) / (real n / real cycles) < 1"
    by (simp only: divide_less_eq_1_pos)
qed

lemma stageIndex_in_range:
  assumes "0 \<le> p" "p < 1" "0 < (m::nat)"
  shows "0 \<le> \<lfloor>p * real m\<rfloor> \<and> nat \<lfloor>p * real m\<rfloor> < m"
proof -
  have "0 \<le> p * real m" using assms by simp
  then have lo: "0 \<le> \<lfloor>p * real m\<rfloor>" by simp
  have "p * real m < 1 * real m" using assms by (intro mult_strict_right_mono) simp_all
  then have "p * real m < real_of_int (int m)" by simp
  then have "\<lfloor>p * real m\<rfloor> < int m" by (simp only: floor_less_iff)
  moreover from lo have "nat \<lfloor>p * real m\<rfloor> < m \<longleftrightarrow> \<lfloor>p * real m\<rfloor> < int m"
    by (rule nat_less_iff)
  ultimately show ?thesis using lo by blast
qed

lemma stageAt_no_fallback:
  assumes "pat \<noteq> []" "[] \<notin> set pat" "i < n"
  shows "stageAt pat cycles n i \<in> set pat"
proof (cases "cycles = 0")
  case True
  with assms show ?thesis
    by (cases pat) (auto simp: stageAt_def stageOr_def)
next
  case False
  then have c: "0 < cycles" by simp
  from assms have n: "0 < n" by simp
  let ?p = "js_rem (real i) (real n / real cycles) / (real n / real cycles)"
  from assms(1) have m: "0 < length pat" by simp
  from stageIndex_in_range[OF cyclePosition_bounds[OF n c, of i] m]
  have k: "0 \<le> \<lfloor>?p * real (length pat)\<rfloor>" "nat \<lfloor>?p * real (length pat)\<rfloor> < length pat"
    by blast+
  have "stageAt pat cycles n i = stageOr pat \<lfloor>?p * real (length pat)\<rfloor>"
    using False by (simp only: stageAt_def Let_def if_False)
  also have "\<dots> = pat ! nat \<lfloor>?p * real (length pat)\<rfloor>"
    using k assms(2) by (rule stageOr_in_range)
  finally show ?thesis using k(2) by (simp only: nth_mem)
qed

lemma stageAt_mem: "stageAt pat cycles n i \<in> insert ''N2'' (set pat)"
  unfolding stageAt_def Let_def by (rule stageOr_mem)

lemma length_stageTimeline: "length (stageTimeline pat cycles n) = n"
  by (simp add: stageTimeline_def)

lemma set_stageTimeline: "set (stageTimeline pat cycles n) \<subseteq> insert ''N2'' (set pat)"
  using stageAt_mem by (auto simp: stageTimeline_def)

lemma N2_label: "''N2'' \<in> stageLabels"
  by (simp add: stageLabels_def)

lemma cyclePattern_labels: "set cyclePattern \<subseteq> stageLabels"
  by (simp add: cyclePattern_def stageLabels_def)

lemma foldE_append: "foldE f (xs @ ys) s = bindE (foldE f xs s) (foldE f ys)"
  by (induction xs arbitrary: s) (auto simp: bindE_def split: sum.splits)

lemma generateSleepStageTimeline_Some:
  "sleepStages d = Some ss \<Longrightarrow>
   generateSleepStageTimeline n d = Inr (d\<lparr>sleepStages := Some (ss @ stageTimeline cyclePattern 4 n)\<rparr>)"
proof -
  have "sleepStages d = Some ss \<Longrightarrow>
     foldE (\<lambda>i d. case sleepStages d of
                     None \<Rightarrow> Inl TypeError
                   | Some ss \<Rightarrow> Inr (d\<lparr>sleepStages := Some (ss @ [f i])\<rparr>)) is d
     = Inr (d\<lparr>sleepStages := Some (ss @ map f is)\<rparr>)" for f :: "nat \<Rightarrow> string" and "is"
    by (induction "is" arbitrary: d ss) (simp_all add: bindE_def)
  then show "sleepStages d = Some ss \<Longrightarrow> ?thesis"
    by (simp add: generateSleepStageTimeline_def stageTimeline_def)
qed

lemma set_stageTimeline_no_fallback:
  assumes "pat \<noteq> []" "[] \<notin> set pat"
  shows "set (stageTimeline pat cycles n) \<subseteq> set pat"
  using stageAt_no_fallback[OF assms] by (auto simp: stageTimeline_def)

text \<open>
  Claim C3. For every number of samples and every non-empty cycle pattern of stage labels,
  the stage timeline has exactly that many elements and each of them is a stage label
  (an element of the pattern or the fallback \<^verbatim>\<open>N2\<close>; the computed index is in range,
  so the fallback is not needed when no label of the pattern is the empty string); the
  generator of the source, with its pattern of six labels and four cycles, stores such a
  timeline.
\<close>

theorem timeline_length_and_labels:
  "length (stageTimeline pat cycles n) = n \<and>
   (pat \<noteq> [] \<and> set pat \<subseteq> stageLabels \<longrightarrow> set (stageTimeline pat cycles n) \<subseteq> stageLabels) \<and>
   (pat \<noteq> [] \<and> [] \<notin> set pat \<longrightarrow> set (stageTimeline pat cycles n) \<subseteq> set pat) \<and>
   generateSleepStageTimeline n (d\<lparr>sleepStages := Some []\<rparr>)
     = Inr (d\<lparr>sleepStages := Some (stageTimeline cyclePattern 4 n)\<rparr>) \<and>
   set (stageTimeline cyclePattern 4 n) \<subseteq> stageLabels"
proof (intro conjI impI)
  show "length (stageTimeline pat cycles n) = n" by (rule length_stageTimeline)
  show "generateSleepStageTimeline n (d\<lparr>sleepStages := Some []\<rparr>)
          = Inr (d\<lparr>sleepStages := Some (stageTimeline cyclePattern 4 n)\<rparr>)"
    by (simp add: generateSleepStageTimeline_Some)
  show "set (stageTimeline cyclePattern 4 n) \<subseteq> stageLabels"
    using set_stageTimeline[of cyclePattern 4 n] N2_label cyclePattern_labels by blast
next
  assume "pat \<noteq> [] \<and> set pat \<subseteq> stageLabels"
  then show "set (stageTimeline pat cycles n) \<subseteq> stageLabels"
    using set_stageTimeline[of pat cycles n] N2_label by blast
next
  assume "pat \<noteq> [] \<and> [] \<notin> set pat"
  then show "set (stageTimeline pat cycles n) \<subseteq> set pat"
    by (simp add: set_stageTimeline_no_fallback)
qed

theorem timeline_length_and_labels_witness:
  "channelPattern \<noteq> [] \<and> set channelPattern \<subseteq> stageLabels \<and> [] \<notin> set channelPattern \<and>
   length (stageTimeline channelPattern 8 80) = 80 \<and>
   set (stageTimeline channelPattern 8 80) \<subseteq> stageLabels \<and>
   set (stageTimeline channelPattern 8 80) \<subseteq> set channelPattern"
proof -
  have "channelPattern \<noteq> []" "set channelPattern \<subseteq> stageLabels" "[] \<notin> set channelPattern"
    by (simp_all add: channelPattern_def stageLabels_def)
  with timeline_length_and_labels[of channelPattern 8 80] show ?thesis by blast
qed



lemma dvd_step_iff:
  fixes step a i :: nat
  assumes "a \<le> i"
  shows "step dvd (i - a) \<longleftrightarrow> i = a \<or> (a + step \<le> i \<and> step dvd (i - (a + step)))"
proof
  assume "step dvd (i - a)"
  then obtain k where k: "i - a = step * k" by (auto simp: dvd_def)
  show "i = a \<or> (a + step \<le> i \<and> step dvd (i - (a + step)))"
  proof (cases k)
    case 0
    with k assms show ?thesis by simp
  next
    case (Suc k')
    with k have e: "i - a = step + step * k'" by simp
    with assms have "i = a + step + step * k'" by linarith
    then have "a + step \<le> i" "i - (a + step) = step * k'" by simp_all
    then show ?thesis by (simp only: dvd_triv_left) simp
  qed
next
  assume "i = a \<or> (a + step \<le> i \<and> step dvd (i - (a + step)))"
  then show "step dvd (i - a)"
  proof
    assume "i = a" then show ?thesis by simp
  next
    assume h: "a + step \<le> i \<and> step dvd (i - (a + step))"
    then obtain k where k: "i - (a + step) = step * k" by (auto simp: dvd_def)
    with h have "i = a + step + step * k" by linarith
    then have "i - a = step * Suc k" by simp
    then show ?thesis by (simp only: dvd_triv_left)
  qed
qed

lemma stepIndices_set:
  "i \<in> set (stepIndices step a b) \<longleftrightarrow> 0 < step \<and> a \<le> i \<and> i < b \<and> step dvd (i - a)"
proof (induction step a b rule: stepIndices.induct)
  case (1 step a b)
  show ?case
  proof (cases "0 < step \<and> a < b")
    case True
    then have unf: "stepIndices step a b = a # stepIndices step (a + step) b"
      by (subst stepIndices.simps) simp
    from True 1 have ih: "i \<in> set (stepIndices step (a + step) b) \<longleftrightarrow>
        0 < step \<and> a + step \<le> i \<and> i < b \<and> step dvd (i - (a + step))"
      by blast
    have mem: "i \<in> set (stepIndices step a b) \<longleftrightarrow>
        i = a \<or> (0 < step \<and> a + step \<le> i \<and> i < b \<and> step dvd (i - (a + step)))"
      unfolding unf by (simp only: set_simps insert_iff ih)
    show ?thesis
    proof (cases "i = a")
      case True
      with \<open>0 < step \<and> a < b\<close> mem show ?thesis by simp
    next
      case ne: False
      show ?thesis
      proof (cases "a \<le> i")
        case le: True
        have "a + step \<le> i \<Longrightarrow> a \<le> i" by simp
        with dvd_step_iff[OF le, of step] ne mem \<open>0 < step \<and> a < b\<close> show ?thesis
          by blast
      next
        case False
        then have "\<not> a + step \<le> i" by simp
        with False ne mem show ?thesis by blast
      qed
    qed
  next
    case False
    then have "stepIndices step a b = []" by (subst stepIndices.simps) simp
    with False show ?thesis by auto
  qed
qed


section \<open>Properties of the event detector\<close>

lemma windowStarts_iff:
  "i \<in> set (stepIndices windowSize 0 (L - windowSize)) \<longleftrightarrow> windowSize dvd i \<and> i + windowSize < L"
  by (auto simp: stepIndices_set windowSize_def)

lemma detectWindow_events:
  assumes "detectWindow d cd i (evs, g) = Inr (evs', g')"
  shows "\<exists>new. evs' = evs @ new \<and>
           (\<forall>e \<in> set new. ev_time e = elemAt (time d) i \<and>
              (ev_type e = sleep_spindle \<or> ev_type e = k_complex \<longrightarrow> stageOfSample d i = Some ''N2'') \<and>
              (ev_type e = rem_burst \<longrightarrow> stageOfSample d i = Some ''REM''))"
  using assms
  by (auto simp: detectWindow_def stageOfSample_def Let_def split: option.splits prod.splits if_splits)

lemma detectWindow_other_stage:
  assumes "sleepStages d = Some ss" "elemAt ss i \<noteq> Some ''N2''" "elemAt ss i \<noteq> Some ''REM''"
  shows "detectWindow d cd i (evs, g) = Inr (evs, g)"
  using assms by (simp add: detectWindow_def)

lemma foldE_appends:
  assumes body: "\<And>i evs g evs' g'. f i (evs, g) = Inr (evs', g') \<Longrightarrow>
                   \<exists>new. evs' = evs @ new \<and> (\<forall>e \<in> set new. P i e)"
  shows "foldE f is (evs, g) = Inr (evs', g') \<Longrightarrow>
         \<exists>new. evs' = evs @ new \<and> (\<forall>e \<in> set new. \<exists>i \<in> set is. P i e)"
proof (induction "is" arbitrary: evs g)
  case Nil
  then show ?case by simp
next
  case (Cons i "is")
  from Cons.prems obtain evs1 g1 where
    s1: "f i (evs, g) = Inr (evs1, g1)" and s2: "foldE f is (evs1, g1) = Inr (evs', g')"
    by (auto simp: bindE_def split: sum.splits)
  from body[OF s1] obtain new1 where n1: "evs1 = evs @ new1" "\<forall>e \<in> set new1. P i e" by blast
  from Cons.IH[OF s2] obtain new2 where
    n2: "evs' = evs1 @ new2" "\<forall>e \<in> set new2. \<exists>i \<in> set is. P i e" by blast
  from n1 n2 have "evs' = evs @ (new1 @ new2)" by simp
  moreover from n1 n2 have "\<forall>e \<in> set (new1 @ new2). \<exists>j \<in> set (i # is). P j e" by auto
  ultimately show ?case by blast
qed

lemma detection_events:
  assumes "runSleepEventDetection (Some d) g = Inr (evs, g')" "channels d ''C3'' = Some cd"
    and "e \<in> set evs"
  shows "\<exists>i \<in> set (stepIndices windowSize 0 (length cd - windowSize)).
           ev_time e = elemAt (time d) i \<and>
           (ev_type e = sleep_spindle \<or> ev_type e = k_complex \<longrightarrow> stageOfSample d i = Some ''N2'') \<and>
           (ev_type e = rem_burst \<longrightarrow> stageOfSample d i = Some ''REM'')"
proof -
  from assms(1,2) have
    "foldE (detectWindow d cd) (stepIndices windowSize 0 (length cd - windowSize)) ([], g) = Inr (evs, g')"
    by (simp add: runSleepEventDetection_def)
  from foldE_appends[of "detectWindow d cd", OF detectWindow_events this] assms(3)
  show ?thesis by auto
qed

lemma detection_no_channel:
  "channels d ''C3'' = None \<Longrightarrow> runSleepEventDetection (Some d) g = Inr ([], g)"
  by (simp add: runSleepEventDetection_def)

lemma detection_short:
  "channels d ''C3'' = Some cd \<Longrightarrow> length cd \<le> windowSize \<Longrightarrow>
   runSleepEventDetection (Some d) g = Inr ([], g)"
  by (simp add: runSleepEventDetection_def stepIndices.simps)

text \<open>
  A dataset from the CSV parser has no stage timeline: once a window is scanned the
  detector stops with the error of reading an index of \<^verbatim>\<open>undefined\<close>.
\<close>

lemma detection_without_stages:
  assumes "sleepStages d = None" "channels d ''C3'' = Some cd" "windowSize < length cd"
  shows "runSleepEventDetection (Some d) g = Inl TypeError"
proof -
  from assms(3) have "stepIndices windowSize 0 (length cd - windowSize)
      = 0 # stepIndices windowSize (0 + windowSize) (length cd - windowSize)"
    by (subst stepIndices.simps) (simp add: windowSize_def)
  with assms(1,2) show ?thesis
    by (simp add: runSleepEventDetection_def detectWindow_def bindE_def)
qed

lemma random_exampleRng: "random exampleRng = (9 / 10, exampleRng)"
  by (simp add: random_def exampleRng_def)

lemma replicate_numeral: "replicate (numeral k) x = x # replicate (pred_numeral k) x"
  by (simp add: numeral_eq_Suc)

lemma exampleSeries_25:
  "exampleSeries 25 =
     [30, - 30, 30, - 30, 30, - 30, 30, - 30, 30, - 30, 30, - 30, 30, - 30, 30, - 30, 30, - 30, 30, - 30,
      30, - 30, 30, - 30, 30, - 30, 30, - 30, 30, - 30, 30, - 30, 30, - 30, 30, - 30, 30, - 30, 30, - 30,
      30, - 30, 30, - 30, 30, - 30, 30, - 30, 30, - 30]"
  by (simp add: exampleSeries_def replicate_numeral)

lemma window0: "take windowSize (exampleSeries 26) = exampleSeries 25"
  by (simp add: exampleSeries_def windowSize_def replicate_numeral)

lemma length_exampleSeries: "length (exampleSeries n) = 2 * n"
  by (induction n) (simp_all add: exampleSeries_def)

lemma starts26: "stepIndices windowSize 0 (52 - windowSize) = [0]"
  by (simp add: stepIndices.simps windowSize_def)

lemma spindle25: "detectSpindle (exampleSeries 25) exampleRng = (True, exampleRng)"
  by (simp add: detectSpindle_def calculateVariance_def exampleSeries_25 random_exampleRng)

lemma kcomplex25: "detectKComplex (exampleSeries 25) exampleRng = (True, exampleRng)"
  by (simp add: detectKComplex_def exampleSeries_25 random_exampleRng)

lemma rem25: "detectREMBurst (exampleSeries 25) exampleRng = (True, exampleRng)"
  by (simp add: detectREMBurst_def exampleSeries_25 random_exampleRng)

lemma maxAbs25: "maxAbs (exampleSeries 25) = Some 30"
  by (simp add: maxAbs_def exampleSeries_25)

lemma window50: "take windowSize (exampleSeries 50) = exampleSeries 25"
  by (simp add: exampleSeries_def windowSize_def replicate_numeral)

lemma starts50: "stepIndices windowSize 0 (100 - windowSize) = [0]"
  by (simp add: stepIndices.simps windowSize_def)

lemma detectWindow_example:
  assumes "take windowSize (exampleSeries n) = exampleSeries 25" "0 < n"
  shows "detectWindow (exampleData n ''N2'') (exampleSeries n) 0 ([], exampleRng) =
           Inr ([spindleExample, kComplexExample], exampleRng)"
    and "detectWindow (exampleData n ''REM'') (exampleSeries n) 0 ([], exampleRng) =
           Inr ([remExample], exampleRng)"
  using assms
  by (simp_all add: detectWindow_def exampleData_def spindle25 kcomplex25 rem25 maxAbs25
      random_exampleRng elemAt_def timeArray_def Let_def spindleExample_def kComplexExample_def
      remExample_def)

lemma run_example_26:
  "runSleepEventDetection (Some (exampleData 26 ''N2'')) exampleRng =
     Inr ([spindleExample, kComplexExample], exampleRng)"
  "runSleepEventDetection (Some (exampleData 26 ''REM'')) exampleRng =
     Inr ([remExample], exampleRng)"
  using starts26
  by (simp_all add: runSleepEventDetection_def length_exampleSeries bindE_def
      detectWindow_example[OF window0] exampleData_def[where n = 26, THEN arg_cong[where f = channels]])

lemma run_example_50:
  "runSleepEventDetection (Some (exampleData 50 ''N2'')) exampleRng =
     Inr ([spindleExample, kComplexExample], exampleRng)"
  using starts50
  by (simp add: runSleepEventDetection_def length_exampleSeries bindE_def
      detectWindow_example[OF window50] exampleData_def[where n = 50, THEN arg_cong[where f = channels]])

lemma channels_exampleData: "channels (exampleData n stage) ''C3'' = Some (exampleSeries n)"
  by (simp add: exampleData_def)

lemma stageOfSample_exampleData:
  "i < 2 * n \<Longrightarrow> stageOfSample (exampleData n stage) i = Some stage"
  by (simp add: stageOfSample_def exampleData_def elemAt_def)

text \<open>
  Claim C1. Every event that the detector returns comes from a scanned window: its time is
  the time at the first sample \<open>i\<close> of that window, and the stage label at \<open>i\<close> is
  \<^verbatim>\<open>N2\<close> if the event is a sleep spindle or a K-complex and \<^verbatim>\<open>REM\<close> if it is a REM
  burst. A window whose first sample has any other label, or none, adds no event.
\<close>

theorem stage_gating:
  "(runSleepEventDetection (Some d) g = Inr (evs, g') \<and> channels d ''C3'' = Some cd \<and> e \<in> set evs \<longrightarrow>
      (\<exists>i \<in> set (stepIndices windowSize 0 (length cd - windowSize)).
         ev_time e = elemAt (time d) i \<and>
         (ev_type e = sleep_spindle \<or> ev_type e = k_complex \<longrightarrow> stageOfSample d i = Some ''N2'') \<and>
         (ev_type e = rem_burst \<longrightarrow> stageOfSample d i = Some ''REM''))) \<and>
   (sleepStages dw = Some ss \<and> elemAt ss j \<noteq> Some ''N2'' \<and> elemAt ss j \<noteq> Some ''REM'' \<longrightarrow>
      detectWindow dw cw j (evw, gw) = Inr (evw, gw))"
  using detection_events[of d g evs g' cd e] detectWindow_other_stage[of dw ss j cw evw gw]
  by blast

theorem stage_gating_witness:
  "runSleepEventDetection (Some (exampleData 26 ''N2'')) exampleRng
     = Inr ([spindleExample, kComplexExample], exampleRng) \<and>
   channels (exampleData 26 ''N2'') ''C3'' = Some (exampleSeries 26) \<and>
   spindleExample \<in> set [spindleExample, kComplexExample] \<and>
   ev_type spindleExample = sleep_spindle \<and>
   (\<exists>i \<in> set (stepIndices windowSize 0 (length (exampleSeries 26) - windowSize)).
      ev_time spindleExample = elemAt (time (exampleData 26 ''N2'')) i \<and>
      stageOfSample (exampleData 26 ''N2'') i = Some ''N2'') \<and>
   sleepStages (exampleData 26 ''Wake'') = Some (replicate 52 ''Wake'') \<and>
   elemAt (replicate 52 ''Wake'') 0 \<noteq> Some ''N2'' \<and>
   elemAt (replicate 52 ''Wake'') 0 \<noteq> Some ''REM'' \<and>
   detectWindow (exampleData 26 ''Wake'') (exampleSeries 26) 0 ([], exampleRng) = Inr ([], exampleRng)"
proof -
  have r: "runSleepEventDetection (Some (exampleData 26 ''N2'')) exampleRng
             = Inr ([spindleExample, kComplexExample], exampleRng)"
    by (rule run_example_26)
  have c: "channels (exampleData 26 ''N2'') ''C3'' = Some (exampleSeries 26)"
    by (rule channels_exampleData)
  have m: "spindleExample \<in> set [spindleExample, kComplexExample]" by simp
  have t: "ev_type spindleExample = sleep_spindle" by (simp add: spindleExample_def)
  have s: "sleepStages (exampleData 26 ''Wake'') = Some (replicate 52 ''Wake'')"
    by (simp add: exampleData_def)
  have w: "elemAt (replicate 52 ''Wake'') 0 \<noteq> Some ''N2''" "elemAt (replicate 52 ''Wake'') 0 \<noteq> Some ''REM''"
    by (simp_all add: elemAt_def)
  from stage_gating[where d = "exampleData 26 ''N2''" and g = exampleRng
      and evs = "[spindleExample, kComplexExample]" and g' = exampleRng
      and cd = "exampleSeries 26" and e = spindleExample and dw = "exampleData 26 ''Wake''"
      and ss = "replicate 52 ''Wake''" and j = 0 and cw = "exampleSeries 26" and evw = "[]"
      and gw = exampleRng]
  show ?thesis using r c m t s w by blast
qed

lemma window_excludes_last:
  assumes "i \<in> set (stepIndices windowSize 0 (L - windowSize))"
  shows "windowSize dvd i" "i + windowSize < L" "i \<noteq> L - windowSize"
    and "\<And>k. i \<le> k \<Longrightarrow> k < i + windowSize \<Longrightarrow> k \<noteq> L - 1"
proof -
  from assms show d: "windowSize dvd i" and l: "i + windowSize < L"
    by (simp_all add: windowStarts_iff)
  from l show "i \<noteq> L - windowSize" by (simp add: windowSize_def)
  fix k assume "i \<le> k" "k < i + windowSize"
  with l show "k \<noteq> L - 1" by simp
qed

lemma elemAt_distinct:
  "distinct xs \<Longrightarrow> j < length xs \<Longrightarrow> i \<noteq> j \<Longrightarrow> elemAt xs i \<noteq> elemAt xs j"
  by (auto simp: elemAt_def nth_eq_iff_index_eq)

text \<open>
  Claim C10. On a series of length \<open>L\<close> the detector scans exactly the windows that start
  at a multiple \<open>i\<close> of the window size with \<open>i + windowSize < L\<close>. So no scanned window
  contains the last sample, none starts at \<open>L - windowSize\<close>, and every returned event
  carries the time of a scanned window's first sample; where the times of the dataset are
  distinct, never the time at \<open>L - windowSize\<close>.
\<close>

theorem scanned_windows:
  "(i \<in> set (stepIndices windowSize 0 (L - windowSize)) \<longleftrightarrow> windowSize dvd i \<and> i + windowSize < L) \<and>
   (i \<in> set (stepIndices windowSize 0 (L - windowSize)) \<longrightarrow>
      i \<noteq> L - windowSize \<and> (\<forall>k. i \<le> k \<and> k < i + windowSize \<longrightarrow> k \<noteq> L - 1)) \<and>
   (runSleepEventDetection (Some d) g = Inr (evs, g') \<and> channels d ''C3'' = Some cd \<and> e \<in> set evs \<longrightarrow>
      (\<exists>j. windowSize dvd j \<and> j + windowSize < length cd \<and> ev_time e = elemAt (time d) j) \<and>
      (distinct (time d) \<and> length (time d) = length cd \<and> windowSize \<le> length cd \<longrightarrow>
         ev_time e \<noteq> elemAt (time d) (length cd - windowSize)))"
proof (intro conjI impI)
  show "i \<in> set (stepIndices windowSize 0 (L - windowSize)) \<longleftrightarrow> windowSize dvd i \<and> i + windowSize < L"
    by (rule windowStarts_iff)
next
  assume "i \<in> set (stepIndices windowSize 0 (L - windowSize))"
  then show "i \<noteq> L - windowSize" by (rule window_excludes_last)
next
  assume "i \<in> set (stepIndices windowSize 0 (L - windowSize))"
  from window_excludes_last(4)[OF this] show "\<forall>k. i \<le> k \<and> k < i + windowSize \<longrightarrow> k \<noteq> L - 1"
    by blast
next
  assume a: "runSleepEventDetection (Some d) g = Inr (evs, g') \<and> channels d ''C3'' = Some cd \<and> e \<in> set evs"
  then obtain j where j: "j \<in> set (stepIndices windowSize 0 (length cd - windowSize))"
      "ev_time e = elemAt (time d) j"
    using detection_events[of d g evs g' cd e] by blast
  from j show "\<exists>j. windowSize dvd j \<and> j + windowSize < length cd \<and> ev_time e = elemAt (time d) j"
    using windowStarts_iff by blast
  assume b: "distinct (time d) \<and> length (time d) = length cd \<and> windowSize \<le> length cd"
  from j(1) have ne: "j \<noteq> length cd - windowSize" by (rule window_excludes_last)
  from b have "length cd - windowSize < length (time d)" unfolding windowSize_def by arith
  with b ne have "elemAt (time d) j \<noteq> elemAt (time d) (length cd - windowSize)"
    by (simp add: elemAt_distinct)
  with j(2) show "ev_time e \<noteq> elemAt (time d) (length cd - windowSize)" by simp
qed

lemma distinct_timeArray: "distinct (timeArray n)"
  by (simp add: timeArray_def distinct_map inj_on_def)

lemma length_timeArray: "length (timeArray n) = n"
  by (simp add: timeArray_def)

theorem scanned_windows_witness:
  "0 \<in> set (stepIndices windowSize 0 (100 - windowSize)) \<and>
   50 \<notin> set (stepIndices windowSize 0 (100 - windowSize)) \<and>
   (0::nat) \<noteq> 100 - windowSize \<and>
   runSleepEventDetection (Some (exampleData 50 ''N2'')) exampleRng
     = Inr ([spindleExample, kComplexExample], exampleRng) \<and>
   channels (exampleData 50 ''N2'') ''C3'' = Some (exampleSeries 50) \<and>
   kComplexExample \<in> set [spindleExample, kComplexExample] \<and>
   distinct (time (exampleData 50 ''N2'')) \<and>
   length (time (exampleData 50 ''N2'')) = length (exampleSeries 50) \<and>
   windowSize \<le> length (exampleSeries 50) \<and>
   ev_time kComplexExample \<noteq> elemAt (time (exampleData 50 ''N2'')) (length (exampleSeries 50) - windowSize)"
proof -
  have r: "runSleepEventDetection (Some (exampleData 50 ''N2'')) exampleRng
             = Inr ([spindleExample, kComplexExample], exampleRng)"
    by (rule run_example_50)
  have c: "channels (exampleData 50 ''N2'') ''C3'' = Some (exampleSeries 50)"
    by (rule channels_exampleData)
  have m: "kComplexExample \<in> set [spindleExample, kComplexExample]" by simp
  have t: "distinct (time (exampleData 50 ''N2''))"
    "length (time (exampleData 50 ''N2'')) = length (exampleSeries 50)"
    "windowSize \<le> length (exampleSeries 50)"
    by (simp_all add: exampleData_def distinct_timeArray length_exampleSeries length_timeArray windowSize_def)
  have z: "0 \<in> set (stepIndices windowSize 0 (100 - windowSize))"
    by (simp add: starts50)
  have n: "50 \<notin> set (stepIndices windowSize 0 (100 - windowSize))"
    by (simp add: starts50)
  from scanned_windows[where i = 0 and L = 100 and d = "exampleData 50 ''N2''" and g = exampleRng
      and evs = "[spindleExample, kComplexExample]" and g' = exampleRng
      and cd = "exampleSeries 50" and e = kComplexExample]
  show ?thesis using r c m t z n by blast
qed

text \<open>
  Claim C4, amended. The detector returns the empty event sequence, and no error, when
  there is no dataset, when the dataset has no channel \<^verbatim>\<open>C3\<close> (the one channel it
  reads), and when the series of \<^verbatim>\<open>C3\<close> has no more samples than one window, in
  particular none.
\<close>

theorem detection_absent_or_empty:
  "runSleepEventDetection None g = Inr ([], g) \<and>
   (channels d ''C3'' = None \<longrightarrow> runSleepEventDetection (Some d) g = Inr ([], g)) \<and>
   (channels d ''C3'' = Some cd \<and> length cd \<le> windowSize \<longrightarrow>
      runSleepEventDetection (Some d) g = Inr ([], g))"
  using detection_no_channel[of d g] detection_short[of d cd g]
  by (simp add: runSleepEventDetection_def)

theorem detection_absent_or_empty_witness:
  "channels noC3Data ''C3'' = None \<and>
   runSleepEventDetection (Some noC3Data) exampleRng = Inr ([], exampleRng) \<and>
   channels emptyC3Data ''C3'' = Some [] \<and> length ([] :: real list) \<le> windowSize \<and>
   runSleepEventDetection (Some emptyC3Data) exampleRng = Inr ([], exampleRng)"
  using detection_absent_or_empty[of exampleRng noC3Data "[]"]
    detection_absent_or_empty[of exampleRng emptyC3Data "[]"]
  by (simp add: noC3Data_def emptyC3Data_def)

text \<open>
  Claim C4 as stated fails: on a dataset without the channel \<^verbatim>\<open>C3\<close> the detector
  returns the empty sequence; there is no \<^verbatim>\<open>UnknownChannel\<close> error.
\<close>

theorem unknown_channel_counterexample:
  "runSleepEventDetection (Some noC3Data) exampleRng = Inr ([], exampleRng)"
  by (simp add: runSleepEventDetection_def noC3Data_def)

section \<open>Properties of the CSV parser, the generator and the synthesizer\<close>

lemma js_split_not_Nil: "js_split sep s \<noteq> []"
  by (induction s) (auto split: list.splits)

lemma js_split_no_sep: "sep \<notin> set s \<Longrightarrow> js_split sep s = [s]"
  by (induction s) auto

lemma pushCell_time: "pushCell pf h v j d = Inr d' \<Longrightarrow> time d' = time d"
  by (auto simp: pushCell_def Let_def split: option.splits)

lemma pushCell_other:
  "pushCell pf h v j d = Inr d' \<Longrightarrow> c \<noteq> js_trim (h ! j) \<Longrightarrow> channels d' c = channels d c"
  by (auto simp: pushCell_def Let_def split: option.splits)

lemma pushCell_dom:
  "channels d (js_trim (h ! j)) \<noteq> None \<Longrightarrow>
   \<exists>d'. pushCell pf h v j d = Inr d' \<and> dom (channels d') = dom (channels d)"
  by (auto simp: pushCell_def Let_def split: option.splits)

lemma foldE_pushCell_time:
  "foldE (pushCell pf h v) js d = Inr d' \<Longrightarrow> time d' = time d"
proof (induction js arbitrary: d)
  case Nil
  then show ?case by simp
next
  case (Cons j js)
  then obtain d1 where "pushCell pf h v j d = Inr d1" "foldE (pushCell pf h v) js d1 = Inr d'"
    by (auto simp: bindE_def split: sum.splits)
  with Cons.IH[of d1] pushCell_time[of pf h v j d d1] show ?case by simp
qed

lemma foldE_pushCell_other:
  "foldE (pushCell pf h v) js d = Inr d' \<Longrightarrow> c \<notin> (\<lambda>j. js_trim (h ! j)) ` set js \<Longrightarrow>
   channels d' c = channels d c"
proof (induction js arbitrary: d)
  case Nil
  then show ?case by simp
next
  case (Cons j js)
  then obtain d1 where s: "pushCell pf h v j d = Inr d1" "foldE (pushCell pf h v) js d1 = Inr d'"
    by (auto simp: bindE_def split: sum.splits)
  from Cons.prems(2) have "c \<noteq> js_trim (h ! j)" "c \<notin> (\<lambda>j. js_trim (h ! j)) ` set js" by auto
  with Cons.IH[OF s(2)] pushCell_other[OF s(1)] show ?case by simp
qed

lemma foldE_pushCell_dom:
  "\<forall>j \<in> set js. js_trim (h ! j) \<in> dom (channels d) \<Longrightarrow>
   \<exists>d'. foldE (pushCell pf h v) js d = Inr d' \<and> dom (channels d') = dom (channels d)"
proof (induction js arbitrary: d)
  case Nil
  then show ?case by simp
next
  case (Cons j js)
  then have "channels d (js_trim (h ! j)) \<noteq> None" by auto
  from pushCell_dom[OF this, of pf v] obtain d1 where
    d1: "pushCell pf h v j d = Inr d1" "dom (channels d1) = dom (channels d)" by blast
  with Cons.prems have "\<forall>j \<in> set js. js_trim (h ! j) \<in> dom (channels d1)" by simp
  from Cons.IH[OF this] d1 show ?case by (auto simp: bindE_def)
qed

lemma parseRow_short:
  "length (js_split CHR '','' (lines ! i)) < 2 \<Longrightarrow> parseRow pf h lines i d = Inr d"
  by (simp add: parseRow_def)

lemma parseRow_time:
  "parseRow pf h lines i d = Inr d' \<Longrightarrow>
   time d' = time d @ (if 2 \<le> length (js_split CHR '','' (lines ! i)) then [real i * 0.004] else [])"
  by (auto simp: parseRow_def Let_def dest!: foldE_pushCell_time split: if_splits)

lemma parseRow_other:
  "parseRow pf h lines i d = Inr d' \<Longrightarrow>
   c \<notin> (\<lambda>j. js_trim (h ! j)) ` {1..<min (length (js_split CHR '','' (lines ! i))) (length h)} \<Longrightarrow>
   channels d' c = channels d c"
  by (auto simp: parseRow_def Let_def dest!: foldE_pushCell_other split: if_splits)

lemma parseRow_dom:
  assumes "\<forall>j. 1 \<le> j \<and> j < length h \<longrightarrow> js_trim (h ! j) \<in> dom (channels d)"
  shows "\<exists>d'. parseRow pf h lines i d = Inr d' \<and> dom (channels d') = dom (channels d)"
proof (cases "2 \<le> length (js_split CHR '','' (lines ! i))")
  case True
  let ?v = "js_split CHR '','' (lines ! i)"
  let ?d1 = "d\<lparr>time := time d @ [real i * 0.004]\<rparr>"
  from assms have "\<forall>j \<in> set [1..<min (length ?v) (length h)]. js_trim (h ! j) \<in> dom (channels ?d1)"
    by simp
  from foldE_pushCell_dom[OF this, of pf ?v] True show ?thesis
    by (simp add: parseRow_def Let_def)
next
  case False
  then show ?thesis by (simp add: parseRow_def)
qed

lemma parseRows_time:
  "foldE (parseRow pf h lines) is d = Inr d' \<Longrightarrow>
   time d' = time d @ map (\<lambda>i. real i * 0.004)
                        (filter (\<lambda>i. 2 \<le> length (js_split CHR '','' (lines ! i))) is)"
proof (induction "is" arbitrary: d)
  case Nil
  then show ?case by simp
next
  case (Cons i "is")
  then obtain d1 where s: "parseRow pf h lines i d = Inr d1" "foldE (parseRow pf h lines) is d1 = Inr d'"
    by (auto simp: bindE_def split: sum.splits)
  from Cons.IH[OF s(2)] parseRow_time[OF s(1)] show ?case by simp
qed

lemma parseRows_dom:
  "\<forall>j. 1 \<le> j \<and> j < length h \<longrightarrow> js_trim (h ! j) \<in> dom (channels d) \<Longrightarrow>
   \<exists>d'. foldE (parseRow pf h lines) is d = Inr d' \<and> dom (channels d') = dom (channels d)"
proof (induction "is" arbitrary: d)
  case Nil
  then show ?case by simp
next
  case (Cons i "is")
  from parseRow_dom[OF Cons.prems, of pf lines i] obtain d1 where
    d1: "parseRow pf h lines i d = Inr d1" "dom (channels d1) = dom (channels d)" by blast
  with Cons.prems have "\<forall>j. 1 \<le> j \<and> j < length h \<longrightarrow> js_trim (h ! j) \<in> dom (channels d1)" by simp
  from Cons.IH[OF this] d1 show ?case by (auto simp: bindE_def)
qed

lemma init_channels:
  "time (fold (\<lambda>i d. d\<lparr>channels := (channels d)(f i \<mapsto> [])\<rparr>) is d) = time d"
  "dom (channels (fold (\<lambda>i d. d\<lparr>channels := (channels d)(f i \<mapsto> [])\<rparr>) is d)) = dom (channels d) \<union> f ` set is"
  "(\<forall>c. channels d c = None \<or> channels d c = Some []) \<Longrightarrow>
     channels (fold (\<lambda>i d. d\<lparr>channels := (channels d)(f i \<mapsto> [])\<rparr>) is d) c = None \<or>
     channels (fold (\<lambda>i d. d\<lparr>channels := (channels d)(f i \<mapsto> [])\<rparr>) is d) c = Some []"
  by (induction "is" arbitrary: d; auto)+

lemma parseCSVData_time:
  assumes "parseCSVData pf s = Inr d"
  shows "time d = map (\<lambda>i. real i * 0.004) (keptRows (js_split CHR 0x0A (js_trim s)))"
    and "samples d = Some (length (time d))"
proof -
  let ?lines = "js_split CHR 0x0A (js_trim s)"
  obtain l0 rest where l: "?lines = l0 # rest"
    using js_split_not_Nil[of "CHR 0x0A" "js_trim s"] by (cases ?lines) auto
  let ?h = "js_split CHR '','' l0"
  let ?dat = "\<lparr>time = [], channels = Map.empty, sleepStages = None, events = None, samples = Some 0\<rparr>"
  let ?dat1 = "fold (\<lambda>i d. d\<lparr>channels := (channels d)(js_trim (?h ! i) \<mapsto> [])\<rparr>) [1..<length ?h] ?dat"
  from assms l obtain d2 where
    d2: "foldE (parseRow pf ?h ?lines) [1..<min (length ?lines) 5000] ?dat1 = Inr d2"
      and d: "d = d2\<lparr>samples := Some (length (time d2))\<rparr>"
    by (auto simp: parseCSVData_def Let_def bindE_def split: sum.splits)
  from parseRows_time[OF d2] have "time d2 = map (\<lambda>i. real i * 0.004) (keptRows ?lines)"
    by (simp add: init_channels(1) keptRows_def)
  with d show "time d = map (\<lambda>i. real i * 0.004) (keptRows ?lines)" by simp
  from d show "samples d = Some (length (time d))" by simp
qed

lemma parseCSVData_total: "\<exists>d. parseCSVData pf s = Inr d"
proof -
  let ?lines = "js_split CHR 0x0A (js_trim s)"
  obtain l0 rest where l: "?lines = l0 # rest"
    using js_split_not_Nil[of "CHR 0x0A" "js_trim s"] by (cases ?lines) auto
  let ?h = "js_split CHR '','' l0"
  let ?dat = "\<lparr>time = [], channels = Map.empty, sleepStages = None, events = None, samples = Some 0\<rparr>"
  let ?dat1 = "fold (\<lambda>i d. d\<lparr>channels := (channels d)(js_trim (?h ! i) \<mapsto> [])\<rparr>) [1..<length ?h] ?dat"
  have "\<forall>j. 1 \<le> j \<and> j < length ?h \<longrightarrow> js_trim (?h ! j) \<in> dom (channels ?dat1)"
    by (simp add: init_channels(2))
  from parseRows_dom[OF this, of pf ?lines "[1..<min (length ?lines) 5000]"] l
  show ?thesis
    by (auto simp: parseCSVData_def Let_def bindE_def)
qed

lemma parseCSVData_no_rows:
  assumes "CHR 0x0A \<notin> set (js_trim s)"
  shows "\<exists>d. parseCSVData pf s = Inr d \<and> time d = [] \<and> samples d = Some 0 \<and>
             (channels d c = None \<or> channels d c = Some [])"
proof -
  from assms have l: "js_split CHR 0x0A (js_trim s) = [js_trim s]" by (rule js_split_no_sep)
  let ?h = "js_split CHR '','' (js_trim s)"
  let ?dat = "\<lparr>time = [], channels = Map.empty, sleepStages = None, events = None, samples = Some 0\<rparr>"
  let ?dat1 = "fold (\<lambda>i d. d\<lparr>channels := (channels d)(js_trim (?h ! i) \<mapsto> [])\<rparr>) [1..<length ?h] ?dat"
  have p: "parseCSVData pf s = Inr (?dat1\<lparr>samples := Some 0\<rparr>)"
    by (simp add: parseCSVData_def l bindE_def Let_def init_channels(1))
  have "channels ?dat1 c = None \<or> channels ?dat1 c = Some []"
    by (rule init_channels(3)) simp
  with p show ?thesis by (simp add: init_channels(1))
qed

lemma sorted_keptRows: "sorted_wrt (<) (keptRows lines)"
  by (simp add: keptRows_def sorted_wrt_filter)

lemma keptRows_all:
  "\<forall>i. 1 \<le> i \<and> i < length lines \<longrightarrow> 2 \<le> length (js_split CHR '','' (lines ! i)) \<Longrightarrow>
   keptRows lines = [1..<min (length lines) 5000]"
  by (simp add: keptRows_def)

lemma header_only_value:
  "parseCSVData parseDigits ''t,C3'' = Inr emptyC3Data"
  by (simp add: parseCSVData_def js_trim_def bindE_def isWhiteSpace_def emptyC3Data_def)

lemma pushEvent_ok:
  "events d = Some es \<Longrightarrow> pushEvent e d = Inr (d\<lparr>events := Some (es @ [e])\<rparr>)"
  by (simp add: pushEvent_def)

lemma sleepEventsAt_ok:
  assumes "sleepStages d = Some ss" "events d = Some es"
  shows "\<exists>d' g'. sleepEventsAt i (d, g) = Inr (d', g') \<and> time d' = time d \<and>
           channels d' = channels d \<and> sleepStages d' = Some ss \<and> (\<exists>es'. events d' = Some es')"
  using assms
  by (auto simp: sleepEventsAt_def Let_def bindE_def pushEvent_def split: prod.splits)

lemma foldE_sleepEventsAt_ok:
  assumes "sleepStages d = Some ss" "events d = Some es"
  shows "\<exists>d' g'. foldE sleepEventsAt is (d, g) = Inr (d', g') \<and> time d' = time d \<and>
           channels d' = channels d \<and> sleepStages d' = Some ss \<and> (\<exists>es'. events d' = Some es')"
  using assms
proof (induction "is" arbitrary: d g es)
  case Nil
  then show ?case by simp
next
  case (Cons i "is")
  from sleepEventsAt_ok[OF Cons.prems, of i g] obtain d1 g1 es1 where
    s: "sleepEventsAt i (d, g) = Inr (d1, g1)" "time d1 = time d" "channels d1 = channels d"
       "sleepStages d1 = Some ss" "events d1 = Some es1"
    by blast
  from Cons.IH[OF s(4,5), of g1] s show ?case by (auto simp: bindE_def)
qed

lemma generateSleepEvents_ok:
  assumes "sleepStages d = Some ss"
  shows "\<exists>d' g'. generateSleepEvents n (d, g) = Inr (d', g') \<and> time d' = time d \<and>
           channels d' = channels d \<and> sleepStages d' = Some ss"
  using foldE_sleepEventsAt_ok[of "d\<lparr>events := Some []\<rparr>" ss "[]" "stepIndices 100 0 n" g] assms
  by (auto simp: generateSleepEvents_def)

lemma channels_fold_fields:
  "time (fst (fold (\<lambda>channel (d, g).
                     let (xs, g') = generateRealisticChannelData n channel g
                     in (d\<lparr>channels := (channels d)(channel \<mapsto> xs)\<rparr>, g')) chs (d, g))) = time d"
  "sleepStages (fst (fold (\<lambda>channel (d, g).
                     let (xs, g') = generateRealisticChannelData n channel g
                     in (d\<lparr>channels := (channels d)(channel \<mapsto> xs)\<rparr>, g')) chs (d, g))) = sleepStages d"
  by (induction chs arbitrary: d g; simp split: prod.splits)+

lemma generateAdvancedEEGData_time:
  "\<exists>d g'. generateAdvancedEEGData g = Inr (d, g') \<and> time d = timeArray 36000 \<and>
          sleepStages d = Some (stageTimeline cyclePattern 4 36000)"
proof -
  let ?d1 = "\<lparr>time = [] @ timeArray 36000, channels = Map.empty, sleepStages = Some [], events = Some [],
              samples = None\<rparr>"
  let ?F = "\<lambda>channel (d, g).
              let (xs, g') = generateRealisticChannelData 36000 channel g
              in (d\<lparr>channels := (channels d)(channel \<mapsto> xs)\<rparr>, g')"
  obtain d2 g2 where f: "fold ?F channelNames (?d1, g) = (d2, g2)" by (cases "fold ?F channelNames (?d1, g)")
  from channels_fold_fields[of 36000 channelNames ?d1 g] f
  have d2: "time d2 = timeArray 36000" "sleepStages d2 = Some []" by simp_all
  from generateSleepStageTimeline_Some[OF d2(2), of 36000]
  have t: "generateSleepStageTimeline 36000 d2 = Inr (d2\<lparr>sleepStages := Some (stageTimeline cyclePattern 4 36000)\<rparr>)"
    by simp
  from generateSleepEvents_ok[of "d2\<lparr>sleepStages := Some (stageTimeline cyclePattern 4 36000)\<rparr>" _ 36000 g2]
  obtain d' g' where e: "generateSleepEvents 36000 (d2\<lparr>sleepStages := Some (stageTimeline cyclePattern 4 36000)\<rparr>, g2) = Inr (d', g')"
    "time d' = time d2" "sleepStages d' = Some (stageTimeline cyclePattern 4 36000)"
    by auto
  have "generateAdvancedEEGData g = Inr (d', g')"
    using f t e(1) by (simp add: generateAdvancedEEGData_def Let_def bindE_def)
  with e d2 show ?thesis by simp
qed

lemma stageSignal_examples:
  "stageSignal (1 / 40) ''Wake'' exampleRng = (15, exampleRng)"
  "stageSignal (1 / 4) ''N3'' exampleRng = (50, exampleRng)"
  by (simp_all add: stageSignal_def)

text \<open>
  Claim C7, amended. A stage label without a case in the synthesizer makes the sample
  function return 0, whatever the time and the region, and draws no random number. A
  region label other than \<^verbatim>\<open>frontal\<close> and \<^verbatim>\<open>occipital\<close> leaves the signal of the stage,
  whichever stage it is, unscaled. No label makes the function fail.
\<close>

theorem unknown_label_signal:
  "(stage \<notin> stageLabels \<longrightarrow> generateStageSpecificSignal t stage regionType g = (0, g)) \<and>
   (regionType \<noteq> ''frontal'' \<and> regionType \<noteq> ''occipital'' \<longrightarrow>
      generateStageSpecificSignal t stage regionType g = stageSignal t stage g)"
  by (simp add: generateStageSpecificSignal_def stageSignal_def regionModulation_def stageLabels_def
      Let_def split: prod.splits)

theorem unknown_label_signal_witness:
  "''Unknown'' \<notin> stageLabels \<and>
   generateStageSpecificSignal 1 ''Unknown'' ''frontal'' exampleRng = (0, exampleRng) \<and>
   ''nowhere'' \<noteq> ''frontal'' \<and> ''nowhere'' \<noteq> ''occipital'' \<and>
   generateStageSpecificSignal (1 / 40) ''Wake'' ''nowhere'' exampleRng = (15, exampleRng) \<and>
   generateStageSpecificSignal (1 / 4) ''N3'' ''nowhere'' exampleRng = (50, exampleRng)"
  using unknown_label_signal[of "''Unknown''" 1 "''frontal''" exampleRng]
    unknown_label_signal[of "''Wake''" "1 / 40" "''nowhere''" exampleRng]
    unknown_label_signal[of "''N3''" "1 / 4" "''nowhere''" exampleRng]
  by (simp add: stageLabels_def stageSignal_examples)

text \<open>The same sample is scaled in the two regions that have a case.\<close>

lemma scaled_examples:
  "generateStageSpecificSignal (1 / 40) ''Wake'' ''occipital'' exampleRng = (45 / 2, exampleRng)"
  "generateStageSpecificSignal (1 / 40) ''Wake'' ''frontal'' exampleRng = (18, exampleRng)"
  by (simp_all add: generateStageSpecificSignal_def regionModulation_def stageSignal_examples)

text \<open>
  Claim C7 as stated fails: with an unknown stage and an unknown region the sample
  function returns the value 0.
\<close>

theorem invalid_label_counterexample:
  "generateStageSpecificSignal 1 ''Unknown'' ''nowhere'' exampleRng = (0, exampleRng)"
  by (simp add: generateStageSpecificSignal_def stageSignal_def regionModulation_def)

text \<open>
  Claim C5, amended. The parser never fails; on an input without data lines (the empty
  text as well as a header row alone) it returns a dataset with no time entry,
  \<open>samples = 0\<close> and only empty channels.
\<close>

theorem csv_without_data_rows:
  "(\<exists>d. parseCSVData pf s = Inr d) \<and>
   (CHR 0x0A \<notin> set (js_trim s) \<longrightarrow>
      (\<exists>d. parseCSVData pf s = Inr d \<and> time d = [] \<and> samples d = Some 0 \<and>
           (channels d c = None \<or> channels d c = Some [])))"
  using parseCSVData_total[of pf s] parseCSVData_no_rows[of s pf c] by blast

theorem csv_without_data_rows_witness:
  "CHR 0x0A \<notin> set (js_trim ''t,C3'') \<and>
   (\<exists>d. parseCSVData parseDigits ''t,C3'' = Inr d \<and> time d = [] \<and> samples d = Some 0 \<and>
        (channels d ''C3'' = None \<or> channels d ''C3'' = Some []))"
proof -
  have "CHR 0x0A \<notin> set (js_trim ''t,C3'')"
    by (simp add: js_trim_def isWhiteSpace_def)
  with csv_without_data_rows[of parseDigits "''t,C3''" "''C3''"] show ?thesis by blast
qed

text \<open>
  Claim C5 as stated fails: the empty input is parsed into a dataset with \<open>samples = 0\<close>;
  there is no \<^verbatim>\<open>EmptyDataset\<close> error.
\<close>

theorem empty_input_counterexample:
  "parseCSVData parseDigits '''' =
     Inr \<lparr>time = [], channels = Map.empty, sleepStages = None, events = None, samples = Some 0\<rparr>"
  by (simp add: parseCSVData_def js_trim_def bindE_def)

lemma pushCell_channels:
  assumes "pushCell pf h v j d = Inr d'"
  shows "channels d' c =
           map_option (\<lambda>xs. xs @ map (\<lambda>j. case pf (v ! j) of None \<Rightarrow> 0 | Some x \<Rightarrow> x)
                                    (filter (\<lambda>j. js_trim (h ! j) = c) [j]))
             (channels d c)"
  using assms
  by (cases "channels d c") (auto simp: pushCell_def Let_def split: option.splits)

lemma foldE_pushCell_channels:
  "foldE (pushCell pf h v) js d = Inr d' \<Longrightarrow>
   channels d' c =
     map_option (\<lambda>xs. xs @ map (\<lambda>j. case pf (v ! j) of None \<Rightarrow> 0 | Some x \<Rightarrow> x)
                              (filter (\<lambda>j. js_trim (h ! j) = c) js))
       (channels d c)"
proof (induction js arbitrary: d)
  case Nil
  then show ?case by (simp add: option.map_ident)
next
  case (Cons j js)
  then obtain d1 where s: "pushCell pf h v j d = Inr d1" "foldE (pushCell pf h v) js d1 = Inr d'"
    by (auto simp: bindE_def split: sum.splits)
  from Cons.IH[OF s(2)] pushCell_channels[OF s(1), of c] show ?case
    by (cases "channels d c") auto
qed

lemma parseRow_contribution:
  assumes "parseRow pf h lines i d = Inr d'"
  shows "time d' = time d @ rowTime lines i"
    and "channels d' c = map_option (\<lambda>xs. xs @ rowCells pf h lines c i) (channels d c)"
proof -
  from parseRow_time[OF assms] show "time d' = time d @ rowTime lines i"
    by (simp add: rowTime_def)
  show "channels d' c = map_option (\<lambda>xs. xs @ rowCells pf h lines c i) (channels d c)"
  proof (cases "2 \<le> length (js_split CHR '','' (lines ! i))")
    case True
    let ?v = "js_split CHR '','' (lines ! i)"
    from True have "foldE (pushCell pf h ?v) [1..<min (length ?v) (length h)]
                      (d\<lparr>time := time d @ [real i * 0.004]\<rparr>) = parseRow pf h lines i d"
      by (simp add: parseRow_def Let_def)
    with assms have "foldE (pushCell pf h ?v) [1..<min (length ?v) (length h)]
                      (d\<lparr>time := time d @ [real i * 0.004]\<rparr>) = Inr d'"
      by (simp only:)
    from foldE_pushCell_channels[OF this, of c] True show ?thesis
      by (simp add: rowCells_def Let_def)
  next
    case False
    with assms have "d' = d" by (simp add: parseRow_def)
    with False show ?thesis by (simp add: rowCells_def option.map_ident)
  qed
qed

lemma parseRows_contribution:
  "foldE (parseRow pf h lines) is d = Inr d' \<Longrightarrow>
   time d' = time d @ concat (map (rowTime lines) is) \<and>
   channels d' c = map_option (\<lambda>xs. xs @ concat (map (rowCells pf h lines c) is)) (channels d c)"
proof (induction "is" arbitrary: d)
  case Nil
  then show ?case by (simp add: option.map_ident)
next
  case (Cons i "is")
  then obtain d1 where s: "parseRow pf h lines i d = Inr d1" "foldE (parseRow pf h lines) is d1 = Inr d'"
    by (auto simp: bindE_def split: sum.splits)
  from Cons.IH[OF s(2)] parseRow_contribution(1)[OF s(1)] parseRow_contribution(2)[OF s(1), of c]
  show ?case
    by (cases "channels d c") auto
qed

lemma init_channels_fold:
  "channels (fold (\<lambda>i d. d\<lparr>channels := (channels d)(f i \<mapsto> [])\<rparr>) is d) c
     = (if c \<in> f ` set is then Some [] else channels d c)"
  by (induction "is" arbitrary: d) auto

lemma init_channels_value:
  "channels (fold (\<lambda>i d. d\<lparr>channels := (channels d)(f i \<mapsto> [])\<rparr>) is
               \<lparr>time = [], channels = Map.empty, sleepStages = None, events = None, samples = Some 0\<rparr>) c
     = (if c \<in> f ` set is then Some [] else None)"
  by (simp add: init_channels_fold)

lemma parseCSVData_rows:
  assumes "parseCSVData pf s = Inr d"
    and L: "L = js_split CHR 0x0A (js_trim s)" and H: "H = js_split CHR '','' (L ! 0)"
  shows "time d = concat (map (rowTime L) [1..<min (length L) 5000])"
    and "channels d c =
           (if c \<in> (\<lambda>j. js_trim (H ! j)) ` {1..<length H}
            then Some (concat (map (rowCells pf H L c) [1..<min (length L) 5000])) else None)"
proof -
  obtain l0 rest where l: "js_split CHR 0x0A (js_trim s) = l0 # rest"
    using js_split_not_Nil[of "CHR 0x0A" "js_trim s"] by (cases "js_split CHR 0x0A (js_trim s)") auto
  with L H have h: "H = js_split CHR '','' l0" by simp
  let ?dat = "\<lparr>time = [], channels = Map.empty, sleepStages = None, events = None, samples = Some 0\<rparr>"
  let ?dat1 = "fold (\<lambda>i d. d\<lparr>channels := (channels d)(js_trim (H ! i) \<mapsto> [])\<rparr>) [1..<length H] ?dat"
  from assms(1) l h L obtain d2 where
    d2: "foldE (parseRow pf H L) [1..<min (length L) 5000] ?dat1 = Inr d2"
      and d: "d = d2\<lparr>samples := Some (length (time d2))\<rparr>"
    by (auto simp: parseCSVData_def Let_def bindE_def split: sum.splits)
  from parseRows_contribution[OF d2, of c] d
  show "time d = concat (map (rowTime L) [1..<min (length L) 5000])"
    and "channels d c =
           (if c \<in> (\<lambda>j. js_trim (H ! j)) ` {1..<length H}
            then Some (concat (map (rowCells pf H L c) [1..<min (length L) 5000])) else None)"
    by (simp_all add: init_channels(1) init_channels_value)
qed

lemma length_concat_rowTime: "length (concat (map (rowTime L) is)) \<le> length is"
  by (induction "is") (simp_all add: rowTime_def)

lemma rowCells_lacking:
  assumes "\<forall>j. 1 \<le> j \<and> j < length H \<and> js_trim (H ! j) = c \<longrightarrow> length (js_split CHR '','' (L ! i)) \<le> j"
  shows "rowCells pf H L c i = []"
proof -
  have "filter (\<lambda>j. js_trim (H ! j) = c) [1..<min (length (js_split CHR '','' (L ! i))) (length H)] = []"
    using assms by (auto simp: filter_empty_conv)
  then show ?thesis by (simp add: rowCells_def Let_def)
qed

text \<open>
  Claim C6, amended. Of the lines of the trimmed input, line 0 being the header, the
  parser reads the lines 1 to 4999 and no line from index 5000 on. Its time sequence and each channel's series are the contributions
  of these lines in file order. A line with fewer than two fields contributes nothing: it
  is skipped entirely. A line with at least two fields is kept, also when it has fewer
  fields than the header has columns: it contributes its time and, for each column from
  1 on that both the line and the header have, the parsed cell to the channel that the
  header names; a channel all of whose columns the line lacks receives nothing from it
  (no padding).
\<close>

theorem short_rows:
  "(L = js_split CHR 0x0A (js_trim s) \<and> H = js_split CHR '','' (L ! 0) \<and> parseCSVData pf s = Inr d \<longrightarrow>
      time d = concat (map (rowTime L) [1..<min (length L) 5000]) \<and>
      channels d c =
        (if c \<in> (\<lambda>j. js_trim (H ! j)) ` {1..<length H}
         then Some (concat (map (rowCells pf H L c) [1..<min (length L) 5000])) else None) \<and>
      length (time d) \<le> 4999) \<and>
   (length (js_split CHR '','' (L ! i)) < 2 \<longrightarrow> rowTime L i = [] \<and> rowCells pf H L c i = []) \<and>
   (2 \<le> length (js_split CHR '','' (L ! i)) \<longrightarrow>
      rowTime L i = [real i * 0.004] \<and>
      rowCells pf H L c i =
        map (\<lambda>j. case pf (js_split CHR '','' (L ! i) ! j) of None \<Rightarrow> 0 | Some v \<Rightarrow> v)
          (filter (\<lambda>j. js_trim (H ! j) = c)
             [1..<min (length (js_split CHR '','' (L ! i))) (length H)]) \<and>
      ((\<forall>j. 1 \<le> j \<and> j < length H \<and> js_trim (H ! j) = c \<longrightarrow>
             length (js_split CHR '','' (L ! i)) \<le> j) \<longrightarrow>
         rowCells pf H L c i = []))"
proof (intro conjI impI)
  assume a: "L = js_split CHR 0x0A (js_trim s) \<and> H = js_split CHR '','' (L ! 0) \<and> parseCSVData pf s = Inr d"
  then have p: "parseCSVData pf s = Inr d" and l: "L = js_split CHR 0x0A (js_trim s)"
    and h: "H = js_split CHR '','' (L ! 0)" by simp_all
  from parseCSVData_rows(1)[OF p l h]
  show t: "time d = concat (map (rowTime L) [1..<min (length L) 5000])" .
  from parseCSVData_rows(2)[OF p l h]
  show "channels d c =
        (if c \<in> (\<lambda>j. js_trim (H ! j)) ` {1..<length H}
         then Some (concat (map (rowCells pf H L c) [1..<min (length L) 5000])) else None)" .
  have "length (time d) \<le> length [1..<min (length L) 5000]"
    unfolding t by (rule length_concat_rowTime)
  then show "length (time d) \<le> 4999" by simp
next
  assume "length (js_split CHR '','' (L ! i)) < 2"
  then show "rowTime L i = []" "rowCells pf H L c i = []"
    by (simp_all add: rowTime_def rowCells_def)
next
  assume "2 \<le> length (js_split CHR '','' (L ! i))"
  then show "rowTime L i = [real i * 0.004]"
    and "rowCells pf H L c i =
        map (\<lambda>j. case pf (js_split CHR '','' (L ! i) ! j) of None \<Rightarrow> 0 | Some v \<Rightarrow> v)
          (filter (\<lambda>j. js_trim (H ! j) = c)
             [1..<min (length (js_split CHR '','' (L ! i))) (length H)])"
    by (simp_all add: rowTime_def rowCells_def Let_def)
  assume "\<forall>j. 1 \<le> j \<and> j < length H \<and> js_trim (H ! j) = c \<longrightarrow>
             length (js_split CHR '','' (L ! i)) \<le> j"
  then show "rowCells pf H L c i = []" by (rule rowCells_lacking)
qed

lemma short_row_value: "parseCSVData parseDigits csvShortRow = Inr shortRowData"
  by (simp add: csvShortRow_def parseCSVData_def js_trim_def bindE_def isWhiteSpace_def parseRow_def
      pushCell_def parseDigits_def digitValue_def shortRowData_def) (auto simp: fun_eq_iff)

lemma short_row_lines:
  "js_split CHR 0x0A (js_trim csvShortRow) = [''t,A,B'', ''1,2'']"
  by (simp add: csvShortRow_def js_trim_def isWhiteSpace_def)

lemma gap_lines:
  "js_split CHR 0x0A (js_trim csvGap) = [''t,A'', ''1,2'', ''x'', ''3,4'']"
  by (simp add: csvGap_def js_trim_def isWhiteSpace_def)

theorem short_rows_witness:
  "[''t,A,B'', ''1,2''] = js_split CHR 0x0A (js_trim csvShortRow) \<and>
   [''t'', ''A'', ''B''] = js_split CHR '','' ([''t,A,B'', ''1,2''] ! 0) \<and>
   parseCSVData parseDigits csvShortRow = Inr shortRowData \<and>
   2 \<le> length (js_split CHR '','' ([''t,A,B'', ''1,2''] ! 1)) \<and>
   length (js_split CHR '','' ([''t,A,B'', ''1,2''] ! 1)) < length [''t'', ''A'', ''B''] \<and>
   rowTime [''t,A,B'', ''1,2''] 1 = [real 1 * 0.004] \<and>
   rowCells parseDigits [''t'', ''A'', ''B''] [''t,A,B'', ''1,2''] ''B'' 1 = [] \<and>
   time shortRowData = concat (map (rowTime [''t,A,B'', ''1,2'']) [1..<min (length [''t,A,B'', ''1,2'']) 5000]) \<and>
   channels shortRowData ''B'' =
     Some (concat (map (rowCells parseDigits [''t'', ''A'', ''B''] [''t,A,B'', ''1,2''] ''B'')
                     [1..<min (length [''t,A,B'', ''1,2'']) 5000])) \<and>
   channels shortRowData ''B'' = Some [] \<and> channels shortRowData ''A'' = Some [2] \<and>
   time shortRowData = [4 / 1000] \<and>
   length (js_split CHR '','' ([''t,A'', ''1,2'', ''x'', ''3,4''] ! 2)) < 2 \<and>
   rowTime [''t,A'', ''1,2'', ''x'', ''3,4''] 2 = [] \<and>
   rowCells parseDigits [''t'', ''A''] [''t,A'', ''1,2'', ''x'', ''3,4''] ''A'' 2 = []"
proof -
  let ?L = "[''t,A,B'', ''1,2'']" and ?H = "[''t'', ''A'', ''B'']"
  let ?G = "[''t,A'', ''1,2'', ''x'', ''3,4'']"
  have l: "?L = js_split CHR 0x0A (js_trim csvShortRow)" by (simp add: short_row_lines)
  have h: "?H = js_split CHR '','' (?L ! 0)" by simp
  have p: "parseCSVData parseDigits csvShortRow = Inr shortRowData" by (rule short_row_value)
  have f: "2 \<le> length (js_split CHR '','' (?L ! 1))"
    "length (js_split CHR '','' (?L ! 1)) < length ?H" by simp_all
  have t: "js_trim ''A'' = ''A''" "js_trim ''B'' = ''B''" "js_trim ''t'' = ''t''"
    by (simp_all add: js_trim_def isWhiteSpace_def)
  have lack: "\<forall>j. 1 \<le> j \<and> j < length ?H \<and> js_trim (?H ! j) = ''B'' \<longrightarrow>
                length (js_split CHR '','' (?L ! 1)) \<le> j"
  proof (intro allI impI)
    fix j assume a: "1 \<le> j \<and> j < length ?H \<and> js_trim (?H ! j) = ''B''"
    then have "j = 1 \<or> j = 2" by auto
    with a t have "j = 2" by auto
    then show "length (js_split CHR '','' (?L ! 1)) \<le> j" by simp
  qed
  have m: "''B'' \<in> (\<lambda>j. js_trim (?H ! j)) ` {1..<length ?H}"
  proof
    show "''B'' = js_trim (?H ! 2)" by (simp add: t)
    show "2 \<in> {1..<length ?H}" by simp
  qed
  have s: "length (js_split CHR '','' (?G ! 2)) < 2" by simp
  note T = short_rows[of ?L csvShortRow ?H parseDigits shortRowData "''B''" 1]
  from T l h p have A: "time shortRowData = concat (map (rowTime ?L) [1..<min (length ?L) 5000])"
    and B: "channels shortRowData ''B'' =
        (if ''B'' \<in> (\<lambda>j. js_trim (?H ! j)) ` {1..<length ?H}
         then Some (concat (map (rowCells parseDigits ?H ?L ''B'') [1..<min (length ?L) 5000])) else None)"
    by blast+
  from B m have B': "channels shortRowData ''B'' =
       Some (concat (map (rowCells parseDigits ?H ?L ''B'') [1..<min (length ?L) 5000]))"
    by (simp only: if_True)
  from T f(1) lack have C: "rowTime ?L 1 = [real 1 * 0.004]" "rowCells parseDigits ?H ?L ''B'' 1 = []"
    by blast+
  from short_rows[of ?G csvGap "[''t'', ''A'']" parseDigits gapData "''A''" 2] s
  have D: "rowTime ?G 2 = []" "rowCells parseDigits [''t'', ''A''] ?G ''A'' 2 = []"
    by blast+
  have E: "channels shortRowData ''B'' = Some []" "channels shortRowData ''A'' = Some [2]"
    "time shortRowData = [4 / 1000]"
    by (simp_all add: shortRowData_def)
  from l h p f A B' C D E s show ?thesis by blast
qed

text \<open>
  Claim C6 as stated fails: under the header \<^verbatim>\<open>t,A,B\<close> the row \<^verbatim>\<open>1,2\<close> has fewer fields
  than the header and still contributes a time entry and a value of channel \<^verbatim>\<open>A\<close>.
\<close>

theorem short_row_counterexample:
  "parseCSVData parseDigits csvShortRow =
     Inr \<lparr>time = [4 / 1000], channels = [''A'' \<mapsto> [2], ''B'' \<mapsto> []], sleepStages = None,
          events = None, samples = Some 1\<rparr>"
  by (simp add: csvShortRow_def parseCSVData_def js_trim_def bindE_def isWhiteSpace_def parseRow_def
      pushCell_def parseDigits_def digitValue_def) (auto simp: fun_eq_iff)

lemma timeArray_nth: "k < n \<Longrightarrow> timeArray n ! k = real k / 10"
  by (simp add: timeArray_def)

lemma sorted_timeArray: "sorted_wrt (<) (timeArray n)"
  by (simp add: timeArray_def sorted_wrt_map)

lemma set_keptRows:
  "i \<in> set (keptRows L) \<longleftrightarrow>
     1 \<le> i \<and> i < min (length L) 5000 \<and> 2 \<le> length (js_split CHR '','' (L ! i))"
  by (auto simp: keptRows_def)

lemma keptRows_consecutive:
  "Suc j < length (keptRows L) \<Longrightarrow> keptRows L ! j < keptRows L ! Suc j"
  using sorted_keptRows[of L] by (simp add: sorted_wrt_nth_less)

text \<open>
  Claim C9, amended. The generator's time sequence has its entry \<open>k\<close> computed as
  \<open>k / 10\<close> and is strictly increasing. The parser's time sequence is strictly increasing
  too; its entries are computed as \<open>i * 0.004\<close> from the line indices \<open>i\<close> of the kept
  rows, in file order. The kept rows are exactly the lines \<open>i\<close> from 1 to 4999 with at
  least two fields; their indices increase strictly, are all the indices from 1 on when
  every data row has at least two fields, and leave out a skipped row otherwise, so the
  spacing of the entries is not one fixed step.
\<close>

theorem time_steps:
  "(\<exists>d g'. generateAdvancedEEGData g = Inr (d, g') \<and> time d = timeArray 36000) \<and>
   length (timeArray n) = n \<and>
   (k < n \<longrightarrow> timeArray n ! k = real k / 10) \<and>
   sorted_wrt (<) (timeArray n) \<and>
   (L = js_split CHR 0x0A (js_trim s) \<and> parseCSVData pf s = Inr dat \<longrightarrow>
      time dat = map (\<lambda>i. real i * 0.004) (keptRows L) \<and>
      sorted_wrt (<) (time dat) \<and>
      sorted_wrt (<) (keptRows L) \<and>
      (i \<in> set (keptRows L) \<longleftrightarrow>
         1 \<le> i \<and> i < min (length L) 5000 \<and> 2 \<le> length (js_split CHR '','' (L ! i))) \<and>
      (Suc j < length (time dat) \<longrightarrow> keptRows L ! j < keptRows L ! Suc j) \<and>
      ((\<forall>r. 1 \<le> r \<and> r < length L \<longrightarrow> 2 \<le> length (js_split CHR '','' (L ! r))) \<longrightarrow>
         keptRows L = [1..<min (length L) 5000]))"
proof (intro conjI impI)
  show "\<exists>d g'. generateAdvancedEEGData g = Inr (d, g') \<and> time d = timeArray 36000"
    using generateAdvancedEEGData_time[of g] by blast
  show "length (timeArray n) = n" by (rule length_timeArray)
  show "sorted_wrt (<) (timeArray n)" by (rule sorted_timeArray)
next
  assume "k < n"
  then show "timeArray n ! k = real k / 10" by (rule timeArray_nth)
next
  assume a: "L = js_split CHR 0x0A (js_trim s) \<and> parseCSVData pf s = Inr dat"
  then have t: "time dat = map (\<lambda>i. real i * 0.004) (keptRows L)"
    using parseCSVData_time(1)[of pf s dat] by simp
  then show "time dat = map (\<lambda>i. real i * 0.004) (keptRows L)" .
  show k: "sorted_wrt (<) (keptRows L)" by (rule sorted_keptRows)
  from k show "sorted_wrt (<) (time dat)" unfolding t by (simp add: sorted_wrt_map)
  show "i \<in> set (keptRows L) \<longleftrightarrow>
         1 \<le> i \<and> i < min (length L) 5000 \<and> 2 \<le> length (js_split CHR '','' (L ! i))"
    by (rule set_keptRows)
  {
    assume "Suc j < length (time dat)"
    with t have "Suc j < length (keptRows L)" by simp
    then show "keptRows L ! j < keptRows L ! Suc j" by (rule keptRows_consecutive)
  }
  assume "\<forall>r. 1 \<le> r \<and> r < length L \<longrightarrow> 2 \<le> length (js_split CHR '','' (L ! r))"
  then show "keptRows L = [1..<min (length L) 5000]" by (rule keptRows_all)
qed

lemma gap_value: "parseCSVData parseDigits csvGap = Inr gapData"
  by (simp add: csvGap_def parseCSVData_def js_trim_def bindE_def isWhiteSpace_def parseRow_def
      pushCell_def parseDigits_def digitValue_def upt_rec gapData_def)

lemma keptRows_gap: "keptRows [''t,A'', ''1,2'', ''x'', ''3,4''] = [1, 3]"
  by (simp add: keptRows_def upt_rec)

lemma two_rows_lines:
  "js_split CHR 0x0A (js_trim csvTwoRows) = [''t,A'', ''1,2'', ''3,4'']"
  by (simp add: csvTwoRows_def js_trim_def isWhiteSpace_def)

lemma two_rows_value: "parseCSVData parseDigits csvTwoRows = Inr twoRowsData"
  by (simp add: csvTwoRows_def parseCSVData_def js_trim_def bindE_def isWhiteSpace_def parseRow_def
      pushCell_def parseDigits_def digitValue_def upt_rec twoRowsData_def)

theorem time_steps_witness:
  "(3::nat) < 5 \<and> timeArray 5 ! 3 = real 3 / 10 \<and>
   [''t,A'', ''1,2'', ''x'', ''3,4''] = js_split CHR 0x0A (js_trim csvGap) \<and>
   parseCSVData parseDigits csvGap = Inr gapData \<and>
   keptRows [''t,A'', ''1,2'', ''x'', ''3,4''] = [1, 3] \<and>
   time gapData = map (\<lambda>i. real i * 0.004) (keptRows [''t,A'', ''1,2'', ''x'', ''3,4'']) \<and>
   sorted_wrt (<) (time gapData) \<and>
   Suc 0 < length (time gapData) \<and>
   keptRows [''t,A'', ''1,2'', ''x'', ''3,4''] ! 0 < keptRows [''t,A'', ''1,2'', ''x'', ''3,4''] ! Suc 0 \<and>
   [''t,A'', ''1,2'', ''3,4''] = js_split CHR 0x0A (js_trim csvTwoRows) \<and>
   parseCSVData parseDigits csvTwoRows = Inr twoRowsData \<and>
   2 \<le> length (js_split CHR '','' ([''t,A'', ''1,2'', ''3,4''] ! 1)) \<and>
   2 \<le> length (js_split CHR '','' ([''t,A'', ''1,2'', ''3,4''] ! 2)) \<and>
   keptRows [''t,A'', ''1,2'', ''3,4''] = [1..<min (length [''t,A'', ''1,2'', ''3,4'']) 5000]"
proof -
  let ?G = "[''t,A'', ''1,2'', ''x'', ''3,4'']" and ?T = "[''t,A'', ''1,2'', ''3,4'']"
  have k: "(3::nat) < 5" by simp
  have g: "?G = js_split CHR 0x0A (js_trim csvGap)" by (simp add: gap_lines)
  have p: "parseCSVData parseDigits csvGap = Inr gapData" by (rule gap_value)
  have kg: "keptRows ?G = [1, 3]" by (rule keptRows_gap)
  have l: "Suc 0 < length (time gapData)" by (simp add: gapData_def)
  have tl: "?T = js_split CHR 0x0A (js_trim csvTwoRows)" by (simp add: two_rows_lines)
  have q: "parseCSVData parseDigits csvTwoRows = Inr twoRowsData" by (rule two_rows_value)
  have r: "2 \<le> length (js_split CHR '','' (?T ! 1))" "2 \<le> length (js_split CHR '','' (?T ! 2))"
    by simp_all
  have a: "\<forall>i. 1 \<le> i \<and> i < length ?T \<longrightarrow> 2 \<le> length (js_split CHR '','' (?T ! i))"
  proof (intro allI impI)
    fix i assume "1 \<le> i \<and> i < length ?T"
    then have "i = 1 \<or> i = 2" by auto
    with r show "2 \<le> length (js_split CHR '','' (?T ! i))" by blast
  qed
  from time_steps[where g = exampleRng and n = 5 and k = 3 and L = ?G and s = csvGap
      and pf = parseDigits and dat = gapData and j = 0] k g p l
  have 1: "timeArray 5 ! 3 = real 3 / 10"
    "time gapData = map (\<lambda>i. real i * 0.004) (keptRows ?G)" "sorted_wrt (<) (time gapData)"
    "keptRows ?G ! 0 < keptRows ?G ! Suc 0"
    by blast+
  from time_steps[where g = exampleRng and n = 5 and k = 3 and L = ?T and s = csvTwoRows
      and pf = parseDigits and dat = twoRowsData and j = 0] tl q a
  have 2: "keptRows ?T = [1..<min (length ?T) 5000]" by blast
  from k 1 g p kg l tl q r 2 show ?thesis by blast
qed

text \<open>
  Claim C9 as stated fails: a row of one field between two full rows is skipped and leaves
  a step of 0.008 in the time sequence, twice 1/250.
\<close>

theorem fixed_step_counterexample:
  "parseCSVData parseDigits csvGap =
     Inr \<lparr>time = [4 / 1000, 12 / 1000], channels = [''A'' \<mapsto> [2, 4]], sleepStages = None,
          events = None, samples = Some 2\<rparr> \<and>
   [4 / 1000, 12 / 1000 :: real] ! 1 - [4 / 1000, 12 / 1000] ! 0 \<noteq> 1 / 250"
  by (simp add: csvGap_def parseCSVData_def js_trim_def bindE_def isWhiteSpace_def parseRow_def
      pushCell_def parseDigits_def digitValue_def upt_rec)

end
